theory Spec2Isabelle
  imports Complex_Main "HOL-Library.Multiset"
begin

section \<open>Python and NumPy values\<close>

text \<open>
  The embedding follows \<^verbatim>\<open>src/code/abstract_model.py\<close> (class \<^verbatim>\<open>Qa_model\<close>).
  Exceptions are values of type \<open>error\<close>; a function that can raise returns
  \<open>error + 'a\<close> with \<open>Inl\<close> for the exception. NumPy arrays are lists (a 2-D array is a
  list of rows), Python integers are \<open>int\<close>, lengths and counts are \<open>nat\<close>, and floats
  are idealised as \<open>real\<close> (no rounding).
\<close>

datatype error = IndexError | ValueError | ZeroDivisionError | OverflowError | ExternalError

text \<open>A sequential loop whose body can raise: the first exception ends the loop.\<close>

fun loop_err :: "('s \<Rightarrow> 'i \<Rightarrow> error + 's) \<Rightarrow> 'i list \<Rightarrow> 's \<Rightarrow> error + 's" where
  "loop_err f [] s = Inr s"
| "loop_err f (i # is) s = (case f s i of Inl e \<Rightarrow> Inl e | Inr s' \<Rightarrow> loop_err f is s')"

text \<open>Converting every element of a list, in order; the first exception wins.\<close>

fun map_err :: "('a \<Rightarrow> error + 'b) \<Rightarrow> 'a list \<Rightarrow> error + 'b list" where
  "map_err f [] = Inr []"
| "map_err f (x # xs) =
     (case f x of Inl e \<Rightarrow> Inl e
      | Inr y \<Rightarrow> (case map_err f xs of Inl e \<Rightarrow> Inl e | Inr ys \<Rightarrow> Inr (y # ys)))"

text \<open>\<^verbatim>\<open>a[i]\<close> for a list or array and a non-negative index.\<close>

definition get_item :: "'a list \<Rightarrow> nat \<Rightarrow> error + 'a" where
  "get_item a i = (if i < length a then Inr (a ! i) else Inl IndexError)"

text \<open>
  \<^verbatim>\<open>a[i] = v\<close> on a 1-D array: a negative index counts from the end, an index outside
  \<open>[-n, n)\<close> raises IndexError.
\<close>

definition set_item :: "'a list \<Rightarrow> int \<Rightarrow> 'a \<Rightarrow> error + 'a list" where
  "set_item a i v =
     (let n = int (length a); j = (if i < 0 then i + n else i)
      in if 0 \<le> j \<and> j < n then Inr (a[nat j := v]) else Inl IndexError)"

text \<open>
  The bounds of a slice \<^verbatim>\<open>a[lo:hi]\<close> on a sequence of length \<open>n\<close>: a negative bound has
  \<open>n\<close> added, then the bound is clamped to \<open>[0, n]\<close>. A slice never raises.
\<close>

definition slice_bound :: "nat \<Rightarrow> int \<Rightarrow> nat" where
  "slice_bound n b = (let c = (if b < 0 then b + int n else b) in if c < 0 then 0 else min n (nat c))"

text \<open>\<^verbatim>\<open>a[lo:hi]\<close>.\<close>

definition get_slice :: "'a list \<Rightarrow> int \<Rightarrow> int \<Rightarrow> 'a list" where
  "get_slice a lo hi = (let l = slice_bound (length a) lo; h = slice_bound (length a) hi in take (h - l) (drop l a))"

text \<open>\<^verbatim>\<open>a[lo:hi] = v\<close> for a scalar \<open>v\<close>.\<close>

definition set_slice :: "'a list \<Rightarrow> int \<Rightarrow> int \<Rightarrow> 'a \<Rightarrow> 'a list" where
  "set_slice a lo hi v =
     (let l = slice_bound (length a) lo; h = slice_bound (length a) hi
      in map (\<lambda>j. if l \<le> j \<and> j < h then v else a ! j) [0..<length a])"

text \<open>\<^verbatim>\<open>np.zeros(n)\<close>.\<close>

definition np_zeros :: "nat \<Rightarrow> 'a::zero list" where
  "np_zeros n = replicate n 0"

text \<open>
  \<^verbatim>\<open>np.argmax\<close> of a 1-D array: the first index of the greatest element; ValueError on an
  empty array.
\<close>

fun argmax_from :: "'a::linorder \<Rightarrow> nat \<Rightarrow> nat \<Rightarrow> 'a list \<Rightarrow> nat" where
  "argmax_from b bi i [] = bi"
| "argmax_from b bi i (x # xs) =
     (if b < x then argmax_from x i (Suc i) xs else argmax_from b bi (Suc i) xs)"

definition argmax :: "'a::linorder list \<Rightarrow> error + nat" where
  "argmax a = (case a of [] \<Rightarrow> Inl ValueError | x # xs \<Rightarrow> Inr (argmax_from x 0 1 xs))"

text \<open>\<^verbatim>\<open>X[idx]\<close> with an index array: the rows of \<open>X\<close> at the given indices.\<close>

definition take_rows :: "'a list \<Rightarrow> nat list \<Rightarrow> error + 'a list" where
  "take_rows X idx = map_err (get_item X) idx"

section \<open>Loading and preprocessing\<close>

subsection \<open>Text files\<close>

text \<open>
  \<^verbatim>\<open>f.readlines()\<close>: the content cut after every newline character, the newline
  kept. \<^verbatim>\<open>line.split()\<close>: the maximal runs of non-whitespace characters, where
  whitespace is space, tab, newline, vertical tab, form feed and carriage return. (The
  translation of other line ends in text mode and the separators 0x1C to 0x1F of
  Python 3 are not modelled; the statements about \<open>read_and_pad\<close> are in terms of
  \<open>readlines\<close> and \<open>split\<close> and do not depend on this choice.)
\<close>

fun readlines :: "string \<Rightarrow> string list" where
  "readlines [] = []"
| "readlines (c # cs) =
     (if c = CHR 0x0A then [c] # readlines cs
      else (case readlines cs of [] \<Rightarrow> [[c]] | l # ls \<Rightarrow> (c # l) # ls))"

definition is_space :: "char \<Rightarrow> bool" where
  "is_space c = (c = CHR '' '' \<or> c = CHR 0x09 \<or> c = CHR 0x0A \<or> c = CHR 0x0B \<or> c = CHR 0x0C \<or> c = CHR 0x0D)"

fun split_acc :: "string \<Rightarrow> string \<Rightarrow> string list" where
  "split_acc tok [] = (if tok = [] then [] else [rev tok])"
| "split_acc tok (c # cs) =
     (if is_space c then (if tok = [] then split_acc [] cs else rev tok # split_acc [] cs)
      else split_acc (c # tok) cs)"

definition split :: "string \<Rightarrow> string list" where
  "split s = split_acc [] s"

subsection \<open>Conversion to an int32 array\<close>

text \<open>
  The rows handed to \<^verbatim>\<open>np.array(..., dtype=np.int32)\<close> hold the tokens of the file, still
  strings, followed by the pad value, an integer. A token is converted as a decimal
  literal with an optional sign (ValueError otherwise); a value outside the int32 range
  is rejected with OverflowError.
\<close>

datatype pyval = Str string | Num int

definition digit_of :: "char \<Rightarrow> nat option" where
  "digit_of c = (let k = of_char c :: nat in if 48 \<le> k \<and> k \<le> 57 then Some (k - 48) else None)"

fun digits_val :: "nat \<Rightarrow> string \<Rightarrow> nat option" where
  "digits_val acc [] = Some acc"
| "digits_val acc (c # cs) =
     (case digit_of c of None \<Rightarrow> None | Some d \<Rightarrow> digits_val (10 * acc + d) cs)"

definition int_of_token :: "string \<Rightarrow> int option" where
  "int_of_token t =
     (case t of
        [] \<Rightarrow> None
      | c # cs \<Rightarrow>
          if c = CHR ''-'' then (if cs = [] then None else map_option (\<lambda>n. - int n) (digits_val 0 cs))
          else if c = CHR ''+'' then (if cs = [] then None else map_option int (digits_val 0 cs))
          else map_option int (digits_val 0 t))"

definition in_int32 :: "int \<Rightarrow> bool" where
  "in_int32 v = (- 2147483648 \<le> v \<and> v < 2147483648)"

definition to_int32 :: "int \<Rightarrow> error + int" where
  "to_int32 v = (if in_int32 v then Inr v else Inl OverflowError)"

fun int32_of_pyval :: "pyval \<Rightarrow> error + int" where
  "int32_of_pyval (Num v) = to_int32 v"
| "int32_of_pyval (Str t) = (case int_of_token t of None \<Rightarrow> Inl ValueError | Some v \<Rightarrow> to_int32 v)"

definition np_array_int32 :: "pyval list list \<Rightarrow> error + int list list" where
  "np_array_int32 rows = map_err (map_err int32_of_pyval) rows"

subsection \<open>read_and_pad\<close>

text \<open>
  The body of the loop over the lines (source lines 41 to 44): truncate to \<open>len\<close> tokens,
  pad with \<open>pad_value\<close>, and build the mask.
\<close>

definition pad_line :: "nat \<Rightarrow> int \<Rightarrow> string list \<Rightarrow> pyval list \<times> bool list" where
  "pad_line len pad_value line0 =
     (let line = take len line0;
          add_length = len - length line;
          mask_row = replicate (length line) True @ replicate add_length False;
          line' = map Str line @ replicate add_length (Num pad_value)
      in (line', mask_row))"

fun read_and_pad_loop ::
  "nat \<Rightarrow> int \<Rightarrow> string list list \<Rightarrow> pyval list list \<Rightarrow> bool list list \<Rightarrow>
   pyval list list \<times> bool list list" where
  "read_and_pad_loop len pad_value [] line_array mask_array = (line_array, mask_array)"
| "read_and_pad_loop len pad_value (line # lines) line_array mask_array =
     (case pad_line len pad_value line of
        (line', mask_row) \<Rightarrow>
          read_and_pad_loop len pad_value lines (line_array @ [line']) (mask_array @ [mask_row]))"

text \<open>\<open>read_and_pad\<close> on the content of the file.\<close>

definition read_and_pad :: "string \<Rightarrow> nat \<Rightarrow> int \<Rightarrow> error + (int list list \<times> bool list list)" where
  "read_and_pad content len pad_value =
     (let lines = map split (readlines content)
      in case read_and_pad_loop len pad_value lines [] [] of
           (line_array, mask_array) \<Rightarrow>
             (case np_array_int32 line_array of
                Inl e \<Rightarrow> Inl e
              | Inr a \<Rightarrow> Inr (a, mask_array)))"

subsection \<open>span_to_y\<close>

text \<open>
  One row of the loop of \<open>span_to_y\<close> (source lines 58 and 59): two zero vectors, a 1
  written at \<open>start_id\<close> and at \<open>end_id\<close> by plain indexing.
\<close>

definition span_row :: "nat \<Rightarrow> int \<times> int \<Rightarrow> error + (int list \<times> int list)" where
  "span_row max_length se =
     (case set_item (np_zeros max_length) (fst se) 1 of
        Inl e \<Rightarrow> Inl e
      | Inr labelS \<Rightarrow>
          (case set_item (np_zeros max_length) (snd se) 1 of
             Inl e \<Rightarrow> Inl e
           | Inr labelE \<Rightarrow> Inr (labelS, labelE)))"

definition span_step ::
  "nat \<Rightarrow> int list list \<times> int list list \<Rightarrow> int \<times> int \<Rightarrow> error + (int list list \<times> int list list)" where
  "span_step max_length SE se =
     (case span_row max_length se of
        Inl e \<Rightarrow> Inl e
      | Inr (labelS, labelE) \<Rightarrow> Inr (fst SE @ [labelS], snd SE @ [labelE]))"

text \<open>
  \<open>span_to_y\<close>: \<open>y\<close> is the array of (start, end) rows; \<open>max_length = None\<close> stands for
  the default \<open>self.max_c_length\<close>, the first argument.
\<close>

definition span_to_y ::
  "nat \<Rightarrow> (int \<times> int) list \<Rightarrow> nat option \<Rightarrow> error + (int list list \<times> int list list)" where
  "span_to_y max_c_length y max_length =
     (let max_length' = (case max_length of None \<Rightarrow> max_c_length | Some l \<Rightarrow> l)
      in loop_err (span_step max_length') y ([], []))"

section \<open>Evaluation metrics\<close>

text \<open>Sequencing of calls that can raise.\<close>

definition bind_err :: "error + 'a \<Rightarrow> ('a \<Rightarrow> error + 'b) \<Rightarrow> error + 'b" where
  "bind_err r f = (case r of Inl e \<Rightarrow> Inl e | Inr x \<Rightarrow> f x)"

text \<open>A loop \<^verbatim>\<open>for _ in range(n)\<close> whose body ignores the counter.\<close>

fun repeat_err :: "nat \<Rightarrow> ('s \<Rightarrow> error + 's) \<Rightarrow> 's \<Rightarrow> error + 's" where
  "repeat_err 0 f s = Inr s"
| "repeat_err (Suc n) f s = bind_err (f s) (repeat_err n f)"

text \<open>
  The predicted coverage vector of \<open>get_f1\<close> (source lines 160 to 162): the slice from
  the predicted start to the predicted end is marked, then the slice from the predicted
  end to the predicted start.
\<close>

definition pred_coverage :: "nat \<Rightarrow> int \<Rightarrow> int \<Rightarrow> real list" where
  "pred_coverage max_c_length pS pE =
     set_slice (set_slice (np_zeros max_c_length) pS (pE + 1) 1) pE (pS + 1) 1"

text \<open>The gold coverage vector (source lines 155 to 158).\<close>

definition gold_coverage :: "nat \<Rightarrow> nat \<Rightarrow> nat \<Rightarrow> real list" where
  "gold_coverage max_c_length s e = set_slice (np_zeros max_c_length) (int s) (int e + 1) 1"

text \<open>The score of one sample (source lines 164 to 172), added to the running total.\<close>

definition f1_add :: "real \<Rightarrow> real list \<Rightarrow> real list \<Rightarrow> real" where
  "f1_add f1_tot y yp =
     (let n_true_pos = sum_list (map2 (*) y yp);
          n_pred_pos = sum_list yp;
          n_actual_pos = sum_list y
      in if n_true_pos = 0 then f1_tot + 0
         else (let precision = 1.0 * n_true_pos / n_pred_pos;
                   recall = 1.0 * n_true_pos / n_actual_pos
               in f1_tot + (2 * precision * recall) / (precision + recall)))"

definition f1_step ::
  "nat \<Rightarrow> int list list \<Rightarrow> int list list \<Rightarrow> int list \<Rightarrow> int list \<Rightarrow> real \<Rightarrow> nat \<Rightarrow> error + real" where
  "f1_step max_c_length yS yE ypS ypE f1_tot i =
     bind_err (get_item yS i) (\<lambda>rowS.
     bind_err (argmax rowS) (\<lambda>s.
     bind_err (get_item yE i) (\<lambda>rowE.
     bind_err (argmax rowE) (\<lambda>e.
     bind_err (get_item ypS i) (\<lambda>pS.
     bind_err (get_item ypE i) (\<lambda>pE.
       Inr (f1_add f1_tot (gold_coverage max_c_length s e) (pred_coverage max_c_length pS pE))))))))"

text \<open>
  \<open>get_f1\<close>. The last argument is the mask parameter of the source. With no sample the
  total is still the Python float 0.0, and dividing it by \<open>len(yS) = 0\<close> raises
  ZeroDivisionError.
\<close>

definition get_f1 ::
  "nat \<Rightarrow> int list list \<Rightarrow> int list list \<Rightarrow> int list \<Rightarrow> int list \<Rightarrow> bool list list \<Rightarrow> error + real" where
  "get_f1 max_c_length yS yE ypS ypE mask_arg =
     bind_err (loop_err (f1_step max_c_length yS yE ypS ypE) [0..<length yS] 0) (\<lambda>f1_tot.
       if length yS = 0 then Inl ZeroDivisionError else Inr (f1_tot / real (length yS)))"

text \<open>
  One sample of \<open>get_exact_match\<close>; the \<^verbatim>\<open>and\<close> of the source reads \<open>ypE[i]\<close> only when
  the start matches.
\<close>

definition em_step ::
  "int list list \<Rightarrow> int list list \<Rightarrow> int list \<Rightarrow> int list \<Rightarrow> nat \<Rightarrow> nat \<Rightarrow> error + nat" where
  "em_step yS yE ypS ypE cnt i =
     bind_err (get_item yS i) (\<lambda>rowS.
     bind_err (argmax rowS) (\<lambda>s.
     bind_err (get_item yE i) (\<lambda>rowE.
     bind_err (argmax rowE) (\<lambda>e.
     bind_err (get_item ypS i) (\<lambda>pS.
       if int s = pS
       then bind_err (get_item ypE i) (\<lambda>pE. if int e = pE then Inr (cnt + 1) else Inr cnt)
       else Inr cnt)))))"

definition get_exact_match ::
  "int list list \<Rightarrow> int list list \<Rightarrow> int list \<Rightarrow> int list \<Rightarrow> bool list list \<Rightarrow> error + real" where
  "get_exact_match yS yE ypS ypE mask_arg =
     bind_err (loop_err (em_step yS yE ypS ypE) [0..<length yS] 0) (\<lambda>cnt.
       if real (length yS) = 0 then Inl ZeroDivisionError
       else Inr (real cnt / real (length yS)))"

section \<open>The model object\<close>

text \<open>
  The fields of \<open>Qa_model\<close> that the data pipeline and the batch cursor use. The global
  NumPy random generator is the field \<open>rng\<close>: a draw \<^verbatim>\<open>np.random.permutation(n)\<close> is
  \<open>rand_perm (rng self) n\<close> for a function \<open>rand_perm\<close> given as a parameter, and it
  advances \<open>rng\<close>.
\<close>

record qa_model =
  max_q_length :: nat
  max_c_length :: nat
  WordEmbeddingMatrix :: "real list list"
  yS :: "int list list"
  yE :: "int list list"
  yvalS :: "int list list"
  yvalE :: "int list list"
  X_c :: "int list list"
  X_c_mask :: "bool list list"
  Xval_c :: "int list list"
  Xval_c_mask :: "bool list list"
  X_q :: "int list list"
  X_q_mask :: "bool list list"
  Xval_q :: "int list list"
  Xval_q_mask :: "bool list list"
  batch_index :: nat
  max_batch_index :: nat
  batch_permutation :: "nat list"
  rng :: nat

section \<open>load_and_preprocess_data\<close>




section \<open>Batch processing\<close>

text \<open>
  \<^verbatim>\<open>np.argsort\<close>: the indices in ascending order of their keys (here with ties in index
  order).
\<close>

definition argsort :: "nat list \<Rightarrow> nat list" where
  "argsort ks = map snd (sort_key fst (zip ks [0..<length ks]))"

text \<open>
  \<open>initialize_batch_processing\<close>. The sum over axis 1 of the context mask needs a 2-D
  array: with no row at all the mask is 1-D and NumPy raises (ValueError here).
\<close>

definition initialize_batch_processing ::
  "(nat \<Rightarrow> nat \<Rightarrow> nat list) \<Rightarrow> qa_model \<Rightarrow> nat \<Rightarrow> string option \<Rightarrow> error + qa_model" where
  "initialize_batch_processing rand_perm self0 n_samples permutation =
     (let self = self0\<lparr>batch_index := 0, max_batch_index := n_samples\<rparr> in
      if permutation = Some ''by_length'' then
        (if X_c_mask self = [] then Inl ValueError
         else (let length_of_each_context_paragraph = map (\<lambda>r. length (filter id r)) (X_c_mask self)
               in Inr (self\<lparr>batch_permutation := argsort length_of_each_context_paragraph\<rparr>)))
      else if permutation = Some ''random'' then
        Inr (self\<lparr>batch_permutation := rand_perm (rng self) (max_batch_index self),
                  rng := Suc (rng self)\<rparr>)
      else Inr (self\<lparr>batch_permutation := [0..<max_batch_index self]\<rparr>))"

type_synonym batch =
  "int list list \<times> bool list list \<times> int list list \<times> bool list list \<times> int list list \<times> int list list"

text \<open>\<open>next_batch\<close>: the batch and the model with the cursor advanced.\<close>

definition next_batch ::
  "(nat \<Rightarrow> nat \<Rightarrow> nat list) \<Rightarrow> qa_model \<Rightarrow> nat \<Rightarrow> error + (batch \<times> qa_model)" where
  "next_batch rand_perm self0 batch_size =
     (let self = (if max_batch_index self0 \<le> batch_index self0
                  then self0\<lparr>batch_index := 0,
                             batch_permutation := rand_perm (rng self0) (max_batch_index self0),
                             rng := Suc (rng self0)\<rparr>
                  else self0);
          start = batch_index self;
          stop = batch_index self + batch_size;
          idx = get_slice (batch_permutation self) (int start) (int stop)
      in bind_err (take_rows (X_c self) idx) (\<lambda>Xcres.
         bind_err (take_rows (X_c_mask self) idx) (\<lambda>Xcmaskres.
         bind_err (take_rows (X_q self) idx) (\<lambda>Xqres.
         bind_err (take_rows (X_q_mask self) idx) (\<lambda>Xqmaskres.
         bind_err (take_rows (yS self) idx) (\<lambda>yresS.
         bind_err (take_rows (yE self) idx) (\<lambda>yresE.
           Inr ((Xcres, Xcmaskres, Xqres, Xqmaskres, yresS, yresE),
                self\<lparr>batch_index := batch_index self + batch_size\<rparr>))))))))"

section \<open>Training\<close>

text \<open>
  The TensorFlow session is opaque: \<open>'w\<close> is its state (the variables), \<open>run_train\<close> is the
  call of \<^verbatim>\<open>sess.run\<close> with the training operation (new state, loss, predicted starts,
  predicted ends, gradient norm) and \<open>run_val\<close> the call without it (loss and predictions).
  Plotting writes files only and is left out.
\<close>

record 'w train_state =
  model :: qa_model
  session :: 'w
  losses :: "real list"
  EMs :: "real list"
  f1s :: "real list"
  grad_norms :: "real list"
  global_losses :: "real list"
  global_EMs :: "real list"
  global_f1s :: "real list"
  global_grad_norms :: "real list"
  EMs_val :: "real list"
  F1s_val :: "real list"

definition np_mean :: "real list \<Rightarrow> real" where
  "np_mean xs = sum_list xs / real (length xs)"

text \<open>
  The scalars of one training step (source lines 326 to 335): the batch, the call of
  the session, and the two metrics of the batch. The result is the loss, the exact
  match, the F1 and the gradient norm, with the model and the session after the step.
\<close>

type_synonym scalars = "real \<times> real \<times> real \<times> real"

definition train_step ::
  "(nat \<Rightarrow> nat \<Rightarrow> nat list) \<Rightarrow> ('w \<Rightarrow> batch \<Rightarrow> error + ('w \<times> real \<times> int list \<times> int list \<times> real)) \<Rightarrow>
   nat \<Rightarrow> qa_model \<times> 'w \<Rightarrow> error + (scalars \<times> qa_model \<times> 'w)" where
  "train_step rand_perm run_train batch_size mw =
     bind_err (next_batch rand_perm (fst mw) batch_size) (\<lambda>(b, self').
     bind_err (run_train (snd mw) b) (\<lambda>(w', current_loss, predictionS, predictionE, grad_norm).
     case b of (batch_xc, batch_xc_mask, batch_xq, batch_xq_mask, batch_yS, batch_yE) \<Rightarrow>
     bind_err (get_exact_match batch_yS batch_yE predictionS predictionE batch_xc_mask) (\<lambda>em.
     bind_err (get_f1 (max_c_length self') batch_yS batch_yE predictionS predictionE batch_xc_mask) (\<lambda>f1.
       Inr ((current_loss, em, f1, grad_norm), self', w')))))"

text \<open>
  The four appends of the step (source lines 332 to 335) and the test of the window
  (lines 337 to 344): once \<open>losses\<close> holds 20 values, the means of the four accumulators
  are appended to the history and the accumulators are emptied.
\<close>

definition record_step :: "scalars \<Rightarrow> 'w train_state \<Rightarrow> 'w train_state" where
  "record_step sc st =
     (case sc of (current_loss, em, f1, grad_norm) \<Rightarrow>
       (let st1 = st\<lparr>EMs := EMs st @ [em], f1s := f1s st @ [f1],
                      losses := losses st @ [current_loss],
                      grad_norms := grad_norms st @ [grad_norm]\<rparr>
        in if 20 \<le> length (losses st1)
           then st1\<lparr>global_losses := global_losses st1 @ [np_mean (losses st1)],
                    global_EMs := global_EMs st1 @ [np_mean (EMs st1)],
                    global_f1s := global_f1s st1 @ [np_mean (f1s st1)],
                    global_grad_norms := global_grad_norms st1 @ [np_mean (grad_norms st1)],
                    losses := [], EMs := [], f1s := [], grad_norms := []\<rparr>
           else st1))"

text \<open>One pass of the body of the inner loop of \<open>train\<close> (source lines 326 to 344).\<close>

definition epoch_step ::
  "(nat \<Rightarrow> nat \<Rightarrow> nat list) \<Rightarrow> ('w \<Rightarrow> batch \<Rightarrow> error + ('w \<times> real \<times> int list \<times> int list \<times> real)) \<Rightarrow>
   nat \<Rightarrow> 'w train_state \<Rightarrow> error + 'w train_state" where
  "epoch_step rand_perm run_train batch_size st =
     bind_err (train_step rand_perm run_train batch_size (model st, session st)) (\<lambda>(sc, self', w').
       Inr (record_step sc (st\<lparr>model := self', session := w'\<rparr>)))"

text \<open>
  The training part of one epoch (source lines 321 to 344): the number of steps is
  \<^verbatim>\<open>int(n_samples / batch_size)\<close>, and the four accumulators start empty.
\<close>

definition train_epoch ::
  "(nat \<Rightarrow> nat \<Rightarrow> nat list) \<Rightarrow> ('w \<Rightarrow> batch \<Rightarrow> error + ('w \<times> real \<times> int list \<times> int list \<times> real)) \<Rightarrow>
   nat \<Rightarrow> nat \<Rightarrow> 'w train_state \<Rightarrow> error + 'w train_state" where
  "train_epoch rand_perm run_train batch_size n_samples st =
     (if batch_size = 0 then Inl ZeroDivisionError
      else repeat_err (nat \<lfloor>real n_samples / real batch_size\<rfloor>)
             (epoch_step rand_perm run_train batch_size)
             (st\<lparr>losses := [], EMs := [], f1s := [], grad_norms := []\<rparr>))"

text \<open>The evaluation on the validation set after an epoch (source lines 348 to 359).\<close>

definition validate ::
  "('w \<Rightarrow> batch \<Rightarrow> error + (real \<times> int list \<times> int list)) \<Rightarrow> 'w train_state \<Rightarrow> error + 'w train_state" where
  "validate run_val st =
     (let self = model st in
      bind_err (run_val (session st)
                 (Xval_c self, Xval_c_mask self, Xval_q self, Xval_q_mask self, yvalS self, yvalE self))
        (\<lambda>(val_loss, predictionS, predictionE).
      bind_err (get_exact_match (yvalS self) (yvalE self) predictionS predictionE (Xval_c_mask self)) (\<lambda>EM_val.
      bind_err (get_f1 (max_c_length self) (yvalS self) (yvalE self) predictionS predictionE (Xval_c_mask self)) (\<lambda>F1_val.
        Inr (st\<lparr>EMs_val := EMs_val st @ [EM_val], F1s_val := F1s_val st @ [F1_val]\<rparr>)))))"

text \<open>\<open>train\<close>: \<open>w0\<close> is the session after the initialisation of the variables.\<close>

definition train ::
  "(nat \<Rightarrow> nat \<Rightarrow> nat list) \<Rightarrow> ('w \<Rightarrow> batch \<Rightarrow> error + ('w \<times> real \<times> int list \<times> int list \<times> real)) \<Rightarrow>
   ('w \<Rightarrow> batch \<Rightarrow> error + (real \<times> int list \<times> int list)) \<Rightarrow>
   nat \<Rightarrow> nat \<Rightarrow> 'w \<Rightarrow> qa_model \<Rightarrow> error + 'w train_state" where
  "train rand_perm run_train run_val epochs batch_size w0 self0 =
     (let n_samples = length (yS self0) in
      bind_err (initialize_batch_processing rand_perm self0 n_samples None) (\<lambda>self.
        repeat_err epochs
          (\<lambda>st. bind_err (train_epoch rand_perm run_train batch_size n_samples st) (validate run_val))
          \<lparr>model = self, session = w0, losses = [], EMs = [], f1s = [], grad_norms = [],
           global_losses = [], global_EMs = [], global_f1s = [], global_grad_norms = [],
           EMs_val = [], F1s_val = []\<rparr>))"

section \<open>Notions used in the statements\<close>

text \<open>
  The vector of length \<open>L\<close> with a 1 at \<open>k\<close> and 0 elsewhere; the index range that NumPy
  accepts for a vector of length \<open>L\<close>, and the position a (possibly negative) accepted
  index denotes; a token that converts to an int32; the file written by the unit test
  of the source (lines 287 to 290).
\<close>

definition one_hot :: "nat \<Rightarrow> nat \<Rightarrow> int list" where
  "one_hot L k = (replicate L 0)[k := 1]"

definition index_ok :: "nat \<Rightarrow> int \<Rightarrow> bool" where
  "index_ok L i = (- int L \<le> i \<and> i < int L)"

definition wrap_index :: "nat \<Rightarrow> int \<Rightarrow> nat" where
  "wrap_index L i = nat (if i < 0 then i + int L else i)"

definition int32_token :: "string \<Rightarrow> bool" where
  "int32_token t = (case int_of_token t of None \<Rightarrow> False | Some v \<Rightarrow> in_int32 v)"

definition fixture_file :: string where
  "fixture_file = ''0 1 2'' @ [CHR 0x0A] @ ''0 1 0 1 0 1'' @ [CHR 0x0A] @ ''2 1'' @ [CHR 0x0A]"







text \<open>
  Repeated calls of \<open>next_batch\<close>, collecting the batches; the rows of the six arrays at
  given indices; a model whose six arrays have \<open>N\<close> rows; the \<open>k\<close>-th slice of \<open>B\<close>
  indices of a permutation; a model with three samples and the cursor at \<open>bi\<close>.
\<close>

fun next_batches ::
  "(nat \<Rightarrow> nat \<Rightarrow> nat list) \<Rightarrow> nat \<Rightarrow> nat \<Rightarrow> qa_model \<Rightarrow> error + (batch list \<times> qa_model)" where
  "next_batches rand_perm B 0 self = Inr ([], self)"
| "next_batches rand_perm B (Suc n) self =
     bind_err (next_batch rand_perm self B) (\<lambda>(b, self').
     bind_err (next_batches rand_perm B n self') (\<lambda>(bs, self'').
       Inr (b # bs, self'')))"

definition rows_at :: "qa_model \<Rightarrow> nat list \<Rightarrow> batch" where
  "rows_at self idx =
     (map ((!) (X_c self)) idx, map ((!) (X_c_mask self)) idx, map ((!) (X_q self)) idx,
      map ((!) (X_q_mask self)) idx, map ((!) (yS self)) idx, map ((!) (yE self)) idx)"

definition dataset_size :: "qa_model \<Rightarrow> nat \<Rightarrow> bool" where
  "dataset_size self N =
     (length (X_c self) = N \<and> length (X_c_mask self) = N \<and> length (X_q self) = N \<and>
      length (X_q_mask self) = N \<and> length (yS self) = N \<and> length (yE self) = N)"

definition chunk :: "nat \<Rightarrow> nat list \<Rightarrow> nat \<Rightarrow> nat list" where
  "chunk B p k = take B (drop (k * B) p)"

definition cycler_model :: "nat \<Rightarrow> qa_model" where
  "cycler_model bi = \<lparr>max_q_length = 1, max_c_length = 2, WordEmbeddingMatrix = [],
     yS = [[1, 0], [0, 1], [1, 0]], yE = [[0, 1], [0, 1], [1, 0]], yvalS = [], yvalE = [],
     X_c = [[10, 11], [20, 3], [30, 31]],
     X_c_mask = [[True, True], [True, False], [True, True]],
     Xval_c = [], Xval_c_mask = [],
     X_q = [[1], [2], [3]], X_q_mask = [[True], [True], [True]],
     Xval_q = [], Xval_q_mask = [],
     batch_index = bi, max_batch_index = 3, batch_permutation = [0, 1, 2], rng = 0\<rparr>"

text \<open>
  The scalars of \<open>n\<close> consecutive training steps, with no windowing; the consecutive
  full windows of 20 values of a list, and the values left over after them; the four
  components of the scalars of a step; accumulators of equal length below 20; the
  effect of recording a sequence of steps, as a loop and in closed form.
\<close>

fun run_steps ::
  "(nat \<Rightarrow> nat \<Rightarrow> nat list) \<Rightarrow> ('w \<Rightarrow> batch \<Rightarrow> error + ('w \<times> real \<times> int list \<times> int list \<times> real)) \<Rightarrow>
   nat \<Rightarrow> nat \<Rightarrow> qa_model \<times> 'w \<Rightarrow> error + (scalars list \<times> qa_model \<times> 'w)" where
  "run_steps rand_perm run_train batch_size 0 mw = Inr ([], mw)"
| "run_steps rand_perm run_train batch_size (Suc n) mw =
     bind_err (train_step rand_perm run_train batch_size mw) (\<lambda>(sc, mw').
     bind_err (run_steps rand_perm run_train batch_size n mw') (\<lambda>(scs, mw'').
       Inr (sc # scs, mw'')))"

definition windows :: "real list \<Rightarrow> real list list" where
  "windows xs = map (\<lambda>k. take 20 (drop (20 * k) xs)) [0..<length xs div 20]"

definition leftover :: "real list \<Rightarrow> real list" where
  "leftover xs = drop (20 * (length xs div 20)) xs"

definition loss_of :: "scalars \<Rightarrow> real" where
  "loss_of sc = fst sc"

definition em_of :: "scalars \<Rightarrow> real" where
  "em_of sc = fst (snd sc)"

definition f1_of :: "scalars \<Rightarrow> real" where
  "f1_of sc = fst (snd (snd sc))"

definition grad_norm_of :: "scalars \<Rightarrow> real" where
  "grad_norm_of sc = snd (snd (snd sc))"

definition acc_ok :: "'w train_state \<Rightarrow> bool" where
  "acc_ok st = (length (losses st) < 20 \<and> length (EMs st) = length (losses st)
      \<and> length (f1s st) = length (losses st) \<and> length (grad_norms st) = length (losses st))"

definition record_all :: "scalars list \<Rightarrow> 'w train_state \<Rightarrow> 'w train_state" where
  "record_all scs st = foldl (\<lambda>s sc. record_step sc s) st scs"

definition recorded :: "scalars list \<Rightarrow> 'w train_state \<Rightarrow> 'w train_state" where
  "recorded scs st =
     st\<lparr>losses := leftover (losses st @ map loss_of scs),
        EMs := leftover (EMs st @ map em_of scs),
        f1s := leftover (f1s st @ map f1_of scs),
        grad_norms := leftover (grad_norms st @ map grad_norm_of scs),
        global_losses := global_losses st @ map np_mean (windows (losses st @ map loss_of scs)),
        global_EMs := global_EMs st @ map np_mean (windows (EMs st @ map em_of scs)),
        global_f1s := global_f1s st @ map np_mean (windows (f1s st @ map f1_of scs)),
        global_grad_norms :=
          global_grad_norms st @ map np_mean (windows (grad_norms st @ map grad_norm_of scs))\<rparr>"

text \<open>
  A model with 21 samples, a session that counts its steps and answers the prediction
  (0, 0) for a batch of one with loss 1/2 and gradient norm 2, and a training state
  with stale accumulators.
\<close>

definition train_model :: qa_model where
  "train_model = \<lparr>max_q_length = 1, max_c_length = 2, WordEmbeddingMatrix = [],
     yS = replicate 21 [1, 0], yE = replicate 21 [1, 0], yvalS = [[0, 1]], yvalE = [[0, 1]],
     X_c = replicate 21 [7, 8], X_c_mask = replicate 21 [True, True],
     Xval_c = [[7, 8]], Xval_c_mask = [[True, True]],
     X_q = replicate 21 [5], X_q_mask = replicate 21 [True],
     Xval_q = [[5]], Xval_q_mask = [[True]],
     batch_index = 0, max_batch_index = 21, batch_permutation = [0..<21], rng = 0\<rparr>"

definition run_train_const :: "nat \<Rightarrow> batch \<Rightarrow> error + (nat \<times> real \<times> int list \<times> int list \<times> real)" where
  "run_train_const w b = Inr (Suc w, 1 / 2, [0], [0], 2)"

definition stale_state :: "nat train_state" where
  "stale_state = \<lparr>model = train_model, session = 0, losses = [9], EMs = [9], f1s = [9],
     grad_norms = [9], global_losses = [], global_EMs = [], global_f1s = [],
     global_grad_norms = [], EMs_val = [], F1s_val = []\<rparr>"

section \<open>Properties of read_and_pad\<close>

lemma bind_err_simps [simp]:
  "bind_err (Inl e) f = Inl e" "bind_err (Inr x) f = f x"
  by (simp_all add: bind_err_def)

lemma read_and_pad_loop_eq:
  "read_and_pad_loop L P lines la ma =
     (la @ map (fst \<circ> pad_line L P) lines, ma @ map (snd \<circ> pad_line L P) lines)"
  by (induction lines arbitrary: la ma) (auto split: prod.splits)

lemma map_err_Inr:
  "(\<And>x. x \<in> set xs \<Longrightarrow> f x = Inr (g x)) \<Longrightarrow> map_err f xs = Inr (map g xs)"
  by (induction xs) auto

lemma int32_of_pyval_Str:
  "int32_token t \<Longrightarrow> int32_of_pyval (Str t) = Inr (the (int_of_token t))"
  by (auto simp: int32_token_def to_int32_def split: option.splits)

lemma convert_padded_line:
  assumes "list_all int32_token (take L toks)" and "in_int32 P"
  shows "map_err int32_of_pyval (fst (pad_line L P toks)) =
         Inr (map (the \<circ> int_of_token) (take (min (length toks) L) toks)
              @ replicate (L - min (length toks) L) P)"
proof -
  have "map_err int32_of_pyval (fst (pad_line L P toks)) =
        Inr (map (\<lambda>x. case x of Str t \<Rightarrow> the (int_of_token t) | Num v \<Rightarrow> v) (fst (pad_line L P toks)))"
  proof (rule map_err_Inr)
    fix x assume "x \<in> set (fst (pad_line L P toks))"
    then consider t where "x = Str t" "t \<in> set (take L toks)" | "x = Num P"
      by (auto simp: pad_line_def Let_def)
    then show "int32_of_pyval x = Inr (case x of Str t \<Rightarrow> the (int_of_token t) | Num v \<Rightarrow> v)"
    proof cases
      case 1
      with assms(1) have "int32_token t" by (simp add: list_all_iff)
      then have "int32_of_pyval (Str t) = Inr (the (int_of_token t))"
        by (rule int32_of_pyval_Str)
      with 1 show ?thesis by simp
    next
      case 2
      with assms(2) show ?thesis by (simp add: to_int32_def)
    qed
  qed
  moreover have "take (min (length toks) L) toks = take L toks"
    by (simp add: min_def)
  ultimately show ?thesis
    by (simp add: pad_line_def Let_def comp_def min_def)
qed

lemma snd_pad_line:
  "snd (pad_line L P toks) =
     replicate (min (length toks) L) True @ replicate (L - min (length toks) L) False"
  by (simp add: pad_line_def Let_def)

lemma map_err_map:
  "(\<And>x. x \<in> set xs \<Longrightarrow> f (h x) = Inr (g x)) \<Longrightarrow> map_err f (map h xs) = Inr (map g xs)"
  by (induction xs) auto

lemma read_and_pad_general:
  assumes "list_all (\<lambda>line. list_all int32_token (take L (split line))) (readlines content)"
    and "in_int32 P"
  shows "read_and_pad content L P =
     Inr (map (\<lambda>line. map (the \<circ> int_of_token) (take (min (length (split line)) L) (split line))
                        @ replicate (L - min (length (split line)) L) P) (readlines content),
          map (\<lambda>line. replicate (min (length (split line)) L) True
                        @ replicate (L - min (length (split line)) L) False) (readlines content))"
proof -
  have step: "map_err int32_of_pyval (fst (pad_line L P (split line))) =
        Inr (map (the \<circ> int_of_token) (take (min (length (split line)) L) (split line))
                        @ replicate (L - min (length (split line)) L) P)"
    if "line \<in> set (readlines content)" for line
  proof -
    from that assms(1) have "list_all int32_token (take L (split line))"
      by (simp add: list_all_iff)
    from convert_padded_line [OF this assms(2)] show ?thesis .
  qed
  have "np_array_int32 (map (\<lambda>line. fst (pad_line L P (split line))) (readlines content)) =
        Inr (map (\<lambda>line. map (the \<circ> int_of_token) (take (min (length (split line)) L) (split line))
                        @ replicate (L - min (length (split line)) L) P) (readlines content))"
    unfolding np_array_int32_def using step by (rule map_err_map)
  then show ?thesis
    by (simp add: read_and_pad_def read_and_pad_loop_eq snd_pad_line comp_def)
qed

text \<open>
  C2. When the first \<open>L\<close> tokens of every line convert to int32 and so does the pad
  value \<open>P\<close>, \<open>read_and_pad\<close> returns one row per line: the first \<open>min k L\<close> ids of the
  line followed by \<open>L - min k L\<close> copies of \<open>P\<close>, with a mask that is True on exactly the
  first \<open>min k L\<close> positions. A longer line is truncated, an empty line gives a fully
  padded row with an all-False mask, and the file of the unit test gives the rows and
  masks of the reference.
\<close>

theorem read_and_pad_rows:
  assumes "list_all (\<lambda>line. list_all int32_token (take L (split line))) (readlines content)"
    and "in_int32 P"
  shows "(\<exists>c m. read_and_pad content L P = Inr (c, m)
            \<and> length c = length (readlines content) \<and> length m = length (readlines content)
            \<and> (\<forall>i < length (readlines content).
                 let toks = split (readlines content ! i); k = min (length toks) L
                 in length (c ! i) = L \<and> length (m ! i) = L
                    \<and> c ! i = map (the \<circ> int_of_token) (take k toks) @ replicate (L - k) P
                    \<and> m ! i = replicate k True @ replicate (L - k) False
                    \<and> (toks = [] \<longrightarrow> c ! i = replicate L P \<and> m ! i = replicate L False)))
         \<and> read_and_pad fixture_file 5 (- 1) =
             Inr ([[0, 1, 2, - 1, - 1], [0, 1, 0, 1, 0], [2, 1, - 1, - 1, - 1]],
                  [[True, True, True, False, False], [True, True, True, True, True],
                   [True, True, False, False, False]])"
proof -
  have fx: "read_and_pad fixture_file 5 (- 1) =
             Inr ([[0, 1, 2, - 1, - 1], [0, 1, 0, 1, 0], [2, 1, - 1, - 1, - 1]],
                  [[True, True, True, False, False], [True, True, True, True, True],
                   [True, True, False, False, False]])"
    by code_simp
  from read_and_pad_general [OF assms] fx show ?thesis
    by (auto simp: Let_def)
qed

text \<open>The theorem at a file with a long line, an empty line and a short line.\<close>

theorem read_and_pad_rows_witness:
  "list_all (\<lambda>line. list_all int32_token (take 2 (split line))) (readlines (''7 8 9'' @ [CHR 0x0A, CHR 0x0A] @ ''5''))
   \<and> in_int32 3
   \<and> read_and_pad (''7 8 9'' @ [CHR 0x0A, CHR 0x0A] @ ''5'') 2 3 =
       Inr ([[7, 8], [3, 3], [5, 3]], [[True, True], [False, False], [True, False]])"
proof -
  have h1: "list_all (\<lambda>line. list_all int32_token (take 2 (split line))) (readlines (''7 8 9'' @ [CHR 0x0A, CHR 0x0A] @ ''5''))"
    by code_simp
  have h2: "in_int32 3" by code_simp
  have v: "read_and_pad (''7 8 9'' @ [CHR 0x0A, CHR 0x0A] @ ''5'') 2 3 =
       Inr ([[7, 8], [3, 3], [5, 3]], [[True, True], [False, False], [True, False]])"
    by code_simp
  from read_and_pad_rows [OF h1 h2] h1 h2 v show ?thesis by simp
qed

section \<open>Properties of span_to_y\<close>

lemma one_hot_conv: "k < L \<Longrightarrow> one_hot L k = replicate k 0 @ 1 # replicate (L - Suc k) 0"
  by (simp add: one_hot_def upd_conv_take_nth_drop)

lemma argmax_from_replicate: "x \<le> b \<Longrightarrow> argmax_from b bi i (replicate n x) = bi"
  by (induction n arbitrary: i) auto

lemma argmax_from_append_replicate:
  "x \<le> b \<Longrightarrow> argmax_from b bi i (replicate n x @ ys) = argmax_from b bi (i + n) ys"
  by (induction n arbitrary: i) auto

lemma argmax_one_hot: "k < L \<Longrightarrow> argmax (one_hot L k) = Inr k"
proof (cases k)
  case 0
  assume "k < L"
  with 0 show ?thesis
    by (simp add: one_hot_conv argmax_def argmax_from_replicate)
next
  case (Suc k')
  assume "k < L"
  with Suc show ?thesis
    using argmax_from_append_replicate [of 0 "0::int" 0 1 k' "1 # replicate (L - Suc k) 0"]
    by (simp add: one_hot_conv argmax_def argmax_from_replicate)
qed

lemma sum_list_one_hot: "k < L \<Longrightarrow> sum_list (one_hot L k) = 1"
  by (simp add: one_hot_conv sum_list_replicate)

lemma one_hot_nth: "j < L \<Longrightarrow> one_hot L k ! j = (if j = k then 1 else 0)"
  by (simp add: one_hot_def nth_list_update)

lemma length_one_hot: "length (one_hot L k) = L"
  by (simp add: one_hot_def)

lemma set_item_zeros:
  "set_item (np_zeros L) i (1::int) =
     (if index_ok L i then Inr (one_hot L (wrap_index L i)) else Inl IndexError)"
  by (auto simp: set_item_def np_zeros_def index_ok_def wrap_index_def one_hot_def Let_def)

lemma span_row_eq:
  "span_row L se = (if index_ok L (fst se) \<and> index_ok L (snd se)
       then Inr (one_hot L (wrap_index L (fst se)), one_hot L (wrap_index L (snd se)))
       else Inl IndexError)"
  by (simp add: span_row_def set_item_zeros)

lemma span_loop_eq:
  "loop_err (span_step L) y SE =
     (if list_all (\<lambda>se. index_ok L (fst se) \<and> index_ok L (snd se)) y
      then Inr (fst SE @ map (\<lambda>se. one_hot L (wrap_index L (fst se))) y,
                snd SE @ map (\<lambda>se. one_hot L (wrap_index L (snd se))) y)
      else Inl IndexError)"
  by (induction y arbitrary: SE) (auto simp: span_step_def span_row_eq)

lemma span_to_y_eq:
  "span_to_y mc y (Some L) =
     (if list_all (\<lambda>se. index_ok L (fst se) \<and> index_ok L (snd se)) y
      then Inr (map (\<lambda>se. one_hot L (wrap_index L (fst se))) y,
                map (\<lambda>se. one_hot L (wrap_index L (snd se))) y)
      else Inl IndexError)"
  by (simp add: span_to_y_def span_loop_eq)

lemma span_to_y_default: "span_to_y L y None = span_to_y mc y (Some L)"
  by (simp add: span_to_y_def)

lemma wrap_index_nonneg: "0 \<le> i \<Longrightarrow> wrap_index L i = nat i"
  by (simp add: wrap_index_def)

lemma wrap_index_neg: "i < 0 \<Longrightarrow> wrap_index L i = nat (int L + i)"
  by (simp add: wrap_index_def add.commute)

text \<open>
  C6. For spans with \<open>0 \<le> start < L\<close> and \<open>0 \<le> end < L\<close>, \<open>span_to_y\<close> returns one
  start row and one end row per span, each of length \<open>L\<close>; the start row has a 1 exactly
  at \<open>start\<close> and 0 elsewhere, the end row a 1 exactly at \<open>end\<close>; the two rows sum to 2
  together, and \<open>argmax\<close> of each row gives back \<open>start\<close> and \<open>end\<close>. The spans of the unit
  test with \<open>L = 5\<close> give the rows of the reference. The default length (no third
  argument) is \<open>max_c_length\<close>.
\<close>

theorem span_to_y_one_hot:
  assumes "list_all (\<lambda>se. 0 \<le> fst se \<and> fst se < int L \<and> 0 \<le> snd se \<and> snd se < int L) y"
  shows "(\<exists>S E. span_to_y mc y (Some L) = Inr (S, E) \<and> span_to_y L y None = Inr (S, E)
            \<and> length S = length y \<and> length E = length y
            \<and> (\<forall>i < length y.
                 length (S ! i) = L \<and> length (E ! i) = L
                 \<and> (\<forall>j < L. S ! i ! j = (if int j = fst (y ! i) then 1 else 0))
                 \<and> (\<forall>j < L. E ! i ! j = (if int j = snd (y ! i) then 1 else 0))
                 \<and> sum_list (S ! i) + sum_list (E ! i) = 2
                 \<and> argmax (S ! i) = Inr (nat (fst (y ! i)))
                 \<and> argmax (E ! i) = Inr (nat (snd (y ! i)))))
         \<and> span_to_y mc [(1, 2), (2, 4), (1, 1), (0, 0)] (Some 5) =
             Inr ([[0, 1, 0, 0, 0], [0, 0, 1, 0, 0], [0, 1, 0, 0, 0], [1, 0, 0, 0, 0]],
                  [[0, 0, 1, 0, 0], [0, 0, 0, 0, 1], [0, 1, 0, 0, 0], [1, 0, 0, 0, 0]])"
proof -
  let ?S = "map (\<lambda>se. one_hot L (wrap_index L (fst se))) y"
  let ?E = "map (\<lambda>se. one_hot L (wrap_index L (snd se))) y"
  from assms have ok: "list_all (\<lambda>se. index_ok L (fst se) \<and> index_ok L (snd se)) y"
    by (auto simp: list_all_iff index_ok_def)
  then have res: "span_to_y mc y (Some L) = Inr (?S, ?E)"
    by (simp add: span_to_y_eq)
  have row: "length (?S ! i) = L \<and> length (?E ! i) = L
        \<and> (\<forall>j < L. ?S ! i ! j = (if int j = fst (y ! i) then 1 else 0))
        \<and> (\<forall>j < L. ?E ! i ! j = (if int j = snd (y ! i) then 1 else 0))
        \<and> sum_list (?S ! i) + sum_list (?E ! i) = 2
        \<and> argmax (?S ! i) = Inr (nat (fst (y ! i)))
        \<and> argmax (?E ! i) = Inr (nat (snd (y ! i)))" if "i < length y" for i
  proof -
    from that assms have b: "0 \<le> fst (y ! i)" "fst (y ! i) < int L" "0 \<le> snd (y ! i)" "snd (y ! i) < int L"
      by (auto simp: list_all_length)
    then have w: "wrap_index L (fst (y ! i)) = nat (fst (y ! i))" "wrap_index L (snd (y ! i)) = nat (snd (y ! i))"
      and lt: "nat (fst (y ! i)) < L" "nat (snd (y ! i)) < L"
      by (simp_all add: wrap_index_nonneg)
    have eqs: "\<And>j. (j = nat (fst (y ! i))) = (int j = fst (y ! i))"
      "\<And>j. (j = nat (snd (y ! i))) = (int j = snd (y ! i))"
      using b by auto
    from that w lt show ?thesis
      by (simp add: length_one_hot one_hot_nth sum_list_one_hot argmax_one_hot eqs)
  qed
  have "span_to_y 5 [(1, 2), (2, 4), (1, 1), (0, 0)] None =
             Inr ([[0, 1, 0, 0, 0], [0, 0, 1, 0, 0], [0, 1, 0, 0, 0], [1, 0, 0, 0, 0]],
                  [[0, 0, 1, 0, 0], [0, 0, 0, 0, 1], [0, 1, 0, 0, 0], [1, 0, 0, 0, 0]])"
    by code_simp
  then have fx: "span_to_y mc [(1, 2), (2, 4), (1, 1), (0, 0)] (Some 5) =
             Inr ([[0, 1, 0, 0, 0], [0, 0, 1, 0, 0], [0, 1, 0, 0, 0], [1, 0, 0, 0, 0]],
                  [[0, 0, 1, 0, 0], [0, 0, 0, 0, 1], [0, 1, 0, 0, 0], [1, 0, 0, 0, 0]])"
    by (simp add: span_to_y_default [of 5 _ mc])
  from res row fx show ?thesis
    by (simp add: span_to_y_default [of L y mc])
qed

text \<open>The theorem at two spans over a context of length 3.\<close>

theorem span_to_y_one_hot_witness:
  "list_all (\<lambda>se. 0 \<le> fst se \<and> fst se < int 3 \<and> 0 \<le> snd se \<and> snd se < int 3) [(0, 2), (1, 1)]
   \<and> (\<exists>S E. span_to_y 9 [(0, 2), (1, 1)] (Some 3) = Inr (S, E)
         \<and> argmax (S ! 0) = Inr 0 \<and> argmax (E ! 0) = Inr 2
         \<and> sum_list (S ! 1) + sum_list (E ! 1) = 2)"
proof -
  have h: "list_all (\<lambda>se. 0 \<le> fst se \<and> fst se < int 3 \<and> 0 \<le> snd se \<and> snd se < int 3) [(0, 2), (1, 1)]"
    by simp
  from span_to_y_one_hot [OF h, of 9] obtain S E where
    r: "span_to_y 9 [(0, 2), (1, 1)] (Some 3) = Inr (S, E)"
    and a: "\<forall>i < length [(0::int, 2::int), (1, 1)].
              sum_list (S ! i) + sum_list (E ! i) = 2
              \<and> argmax (S ! i) = Inr (nat (fst ([(0::int, 2::int), (1, 1)] ! i)))
              \<and> argmax (E ! i) = Inr (nat (snd ([(0::int, 2::int), (1, 1)] ! i)))"
    by auto
  from a have "argmax (S ! 0) = Inr 0" "argmax (E ! 0) = Inr 2"
      "sum_list (S ! 1) + sum_list (E ! 1) = 2"
    by (auto simp: nth_Cons')
  with r h show ?thesis by blast
qed

text \<open>
  C9. A write of the 1 at a negative index in \<open>[-L, -1]\<close> raises nothing and lands at
  position \<open>L + index\<close>. When every index of every span is in the range \<open>[-L, L)\<close> that
  NumPy accepts, \<open>span_to_y\<close> returns, and the row of each negative start or end index
  has its 1 exactly at \<open>L + index\<close>.
\<close>

theorem span_to_y_negative_wraps:
  assumes "list_all (\<lambda>se. index_ok L (fst se) \<and> index_ok L (snd se)) y"
  shows "(- int L \<le> v \<and> v < 0 \<longrightarrow>
            set_item (np_zeros L) v (1::int) = Inr ((replicate L 0)[nat (int L + v) := 1]))
         \<and> (\<exists>S E. span_to_y mc y (Some L) = Inr (S, E)
           \<and> length S = length y \<and> length E = length y
           \<and> (\<forall>i < length y.
                (fst (y ! i) < 0 \<longrightarrow>
                   length (S ! i) = L
                   \<and> (\<forall>j < L. S ! i ! j = (if int j = int L + fst (y ! i) then 1 else 0)))
                \<and> (snd (y ! i) < 0 \<longrightarrow>
                   length (E ! i) = L
                   \<and> (\<forall>j < L. E ! i ! j = (if int j = int L + snd (y ! i) then 1 else 0)))))"
proof -
  have w: "- int L \<le> v \<and> v < 0 \<longrightarrow>
            set_item (np_zeros L) v (1::int) = Inr ((replicate L 0)[nat (int L + v) := 1])"
    by (simp add: set_item_def np_zeros_def Let_def add.commute)
  let ?S = "map (\<lambda>se. one_hot L (wrap_index L (fst se))) y"
  let ?E = "map (\<lambda>se. one_hot L (wrap_index L (snd se))) y"
  from assms have res: "span_to_y mc y (Some L) = Inr (?S, ?E)"
    by (simp add: span_to_y_eq)
  have neg: "(\<forall>j < L. one_hot L (wrap_index L v) ! j = (if int j = int L + v then 1 else 0))"
    if "index_ok L v" "v < 0" for v
  proof -
    from that have "\<And>j. (j = nat (int L + v)) = (int j = int L + v)"
      by (auto simp: index_ok_def)
    with that show ?thesis
      by (simp add: wrap_index_neg one_hot_nth)
  qed
  have row: "(fst (y ! i) < 0 \<longrightarrow> length (?S ! i) = L
                   \<and> (\<forall>j < L. ?S ! i ! j = (if int j = int L + fst (y ! i) then 1 else 0)))
           \<and> (snd (y ! i) < 0 \<longrightarrow> length (?E ! i) = L
                   \<and> (\<forall>j < L. ?E ! i ! j = (if int j = int L + snd (y ! i) then 1 else 0)))"
    if "i < length y" for i
  proof -
    from that assms have "index_ok L (fst (y ! i))" "index_ok L (snd (y ! i))"
      by (auto simp: list_all_length)
    with that neg show ?thesis
      by (simp add: length_one_hot)
  qed
  from w res row show ?thesis by simp
qed

text \<open>The theorem at spans with the indices -1, -5 and -2 over a context of length 5.\<close>

theorem span_to_y_negative_wraps_witness:
  "list_all (\<lambda>se. index_ok 5 (fst se) \<and> index_ok 5 (snd se)) [(- 1, - 5), (2, - 2)]
   \<and> span_to_y 5 [(- 1, - 5), (2, - 2)] (Some 5) =
       Inr ([[0, 0, 0, 0, 1], [0, 0, 1, 0, 0]], [[1, 0, 0, 0, 0], [0, 0, 0, 1, 0]])"
proof -
  have h: "list_all (\<lambda>se. index_ok 5 (fst se) \<and> index_ok 5 (snd se)) [(- 1, - 5), (2, - 2)]"
    by (simp add: index_ok_def)
  have v: "span_to_y 5 [(- 1, - 5), (2, - 2)] (Some 5) =
       Inr ([[0, 0, 0, 0, 1], [0, 0, 1, 0, 0]], [[1, 0, 0, 0, 0], [0, 0, 0, 1, 0]])"
    by code_simp
  from span_to_y_negative_wraps [OF h, of 5] h v show ?thesis by simp
qed

text \<open>
  C4, as stated, fails: a span with the start index -1, which is less than 0, is not
  rejected; its 1 is written at the last position.
\<close>

theorem span_to_y_negative_start_counterexample:
  "span_to_y 5 [(- 1, 0)] (Some 5) = Inr ([[0, 0, 0, 0, 1]], [[1, 0, 0, 0, 0]])"
  by code_simp

text \<open>
  C4, amended. \<open>span_to_y\<close> has no validation of its own; the only check is the bounds
  check of the indexed write. It raises IndexError exactly when some start or end index
  is greater than or equal to \<open>L\<close> or less than \<open>-L\<close>, and then the whole call is aborted;
  in every other case it returns.
\<close>

theorem span_to_y_index_error:
  "(span_to_y mc y (Some L) = Inl IndexError) =
     (\<not> list_all (\<lambda>se. - int L \<le> fst se \<and> fst se < int L \<and> - int L \<le> snd se \<and> snd se < int L) y)
   \<and> ((\<exists>S E. span_to_y mc y (Some L) = Inr (S, E)) =
     list_all (\<lambda>se. - int L \<le> fst se \<and> fst se < int L \<and> - int L \<le> snd se \<and> snd se < int L) y)"
proof -
  have "list_all (\<lambda>se. index_ok L (fst se) \<and> index_ok L (snd se)) y =
        list_all (\<lambda>se. - int L \<le> fst se \<and> fst se < int L \<and> - int L \<le> snd se \<and> snd se < int L) y"
    by (simp add: index_ok_def conj_ac)
  then show ?thesis
    by (auto simp: span_to_y_eq)
qed

text \<open>The amended statement at an index 5, an index -6 and an index -5, with \<open>L = 5\<close>.\<close>

theorem span_to_y_index_error_witness:
  "span_to_y 5 [(0, 1), (5, 0)] (Some 5) = Inl IndexError
   \<and> span_to_y 5 [(0, 1), (0, - 6)] (Some 5) = Inl IndexError
   \<and> (\<exists>S E. span_to_y 5 [(0, 1), (- 5, 4)] (Some 5) = Inr (S, E))"
  using span_to_y_index_error [of 5 "[(0, 1), (5, 0)]" 5]
    span_to_y_index_error [of 5 "[(0, 1), (0, - 6)]" 5]
    span_to_y_index_error [of 5 "[(0, 1), (- 5, 4)]" 5]
  by simp

section \<open>Properties of the metrics\<close>

lemma length_set_slice [simp]: "length (set_slice a lo hi v) = length a"
  by (simp add: set_slice_def Let_def)

lemma set_slice_nth:
  "j < length a \<Longrightarrow>
     set_slice a lo hi v ! j =
       (if slice_bound (length a) lo \<le> j \<and> j < slice_bound (length a) hi then v else a ! j)"
  by (simp add: set_slice_def Let_def)

lemma pred_coverage_sym: "pred_coverage L pS pE = pred_coverage L pE pS"
  by (rule nth_equalityI) (auto simp: pred_coverage_def set_slice_nth)

lemma get_item_cases: "get_item a i = Inl IndexError \<or> (\<exists>x. get_item a i = Inr x)"
  by (simp add: get_item_def)

lemma f1_step_sym:
  "f1_step L gS gE pS pE tot i = f1_step L gS gE pE pS tot i"
  using get_item_cases [of pS i] get_item_cases [of pE i]
  by (auto simp: f1_step_def bind_err_def pred_coverage_sym split: sum.splits)

lemma get_f1_sym: "get_f1 L gS gE pS pE m = get_f1 L gS gE pE pS m"
proof -
  have "f1_step L gS gE pS pE = f1_step L gS gE pE pS"
    by (intro ext) (rule f1_step_sym)
  then show ?thesis by (simp add: get_f1_def)
qed

text \<open>
  C5. The predicted coverage vector built from \<open>(pS, pE)\<close> equals the one built from
  \<open>(pE, pS)\<close>, for all integers \<open>pS\<close> and \<open>pE\<close>, and \<open>get_f1\<close> gives the same result (score
  or exception) when the arrays of predicted starts and predicted ends are swapped.
\<close>

theorem get_f1_flip_symmetric:
  "pred_coverage L pS pE = pred_coverage L pE pS
   \<and> get_f1 L gS gE predS predE m = get_f1 L gS gE predE predS m"
  using pred_coverage_sym [of L pS pE] get_f1_sym [of L gS gE predS predE m] by simp

text \<open>A gold span from 1 to 2 against the prediction (3, 1) and its flip (1, 3).\<close>

theorem get_f1_flip_symmetric_witness:
  "pred_coverage 5 3 1 = [0, 1, 1, 1, 0] \<and> pred_coverage 5 1 3 = [0, 1, 1, 1, 0]
   \<and> get_f1 5 [[0, 1, 0, 0, 0]] [[0, 0, 1, 0, 0]] [3] [1] [] = Inr (4 / 5)
   \<and> get_f1 5 [[0, 1, 0, 0, 0]] [[0, 0, 1, 0, 0]] [1] [3] [] = Inr (4 / 5)"
proof -
  have a: "pred_coverage 5 1 3 = [0, 1, 1, 1, 0]"
    by code_simp
  have b: "get_f1 5 [[0, 1, 0, 0, 0]] [[0, 0, 1, 0, 0]] [1] [3] [] = Inr (4 / 5)"
    by code_simp
  from get_f1_flip_symmetric [of 5 3 1 "[[0, 1, 0, 0, 0]]" "[[0, 0, 1, 0, 0]]" "[3]" "[1]" "[]"] a b
  show ?thesis by simp
qed

text \<open>
  C10. For fixed gold vectors and predictions, \<open>get_exact_match\<close> and \<open>get_f1\<close> return
  the same result for any two values of their mask argument.
\<close>

theorem metrics_ignore_mask:
  "get_exact_match gS gE predS predE m1 = get_exact_match gS gE predS predE m2
   \<and> get_f1 L gS gE predS predE m1 = get_f1 L gS gE predS predE m2"
  by (simp add: get_exact_match_def get_f1_def)

text \<open>Both metrics at one sample, under different masks.\<close>

theorem metrics_ignore_mask_witness:
  "get_exact_match [[0, 1, 0]] [[0, 0, 1]] [1] [2] [[True, True, True]] = Inr 1
   \<and> get_exact_match [[0, 1, 0]] [[0, 0, 1]] [1] [2] [[False, False, False]] = Inr 1
   \<and> get_f1 3 [[0, 1, 0]] [[0, 0, 1]] [1] [1] [[True, True, True]] = Inr (2 / 3)
   \<and> get_f1 3 [[0, 1, 0]] [[0, 0, 1]] [1] [1] [] = Inr (2 / 3)"
proof -
  have a: "get_exact_match [[0, 1, 0]] [[0, 0, 1]] [1] [2] [[True, True, True]] = Inr 1"
    by code_simp
  have b: "get_f1 3 [[0, 1, 0]] [[0, 0, 1]] [1] [1] [[True, True, True]] = Inr (2 / 3)"
    by code_simp
  from metrics_ignore_mask [of "[[0, 1, 0]]" "[[0, 0, 1]]" "[1]" "[2]" "[[True, True, True]]" "[[False, False, False]]" 3]
    metrics_ignore_mask [of "[[0, 1, 0]]" "[[0, 0, 1]]" "[1]" "[1]" "[[True, True, True]]" "[]" 3] a b
  show ?thesis by simp
qed

lemma loop_err_no_zde:
  "(\<And>s i. f s i \<noteq> Inl ZeroDivisionError) \<Longrightarrow> loop_err f is s \<noteq> Inl ZeroDivisionError"
  by (induction "is" arbitrary: s) (auto split: sum.splits)

lemma get_item_no_zde: "get_item a i \<noteq> Inl ZeroDivisionError"
  by (simp add: get_item_def)

lemma argmax_no_zde: "argmax a \<noteq> Inl ZeroDivisionError"
  by (simp add: argmax_def split: list.splits)

lemma bind_err_no_zde:
  "r \<noteq> Inl ZeroDivisionError \<Longrightarrow> (\<And>x. f x \<noteq> Inl ZeroDivisionError) \<Longrightarrow>
   bind_err r f \<noteq> Inl ZeroDivisionError"
  by (cases r) auto

lemma em_step_no_zde: "em_step gS gE pS pE c i \<noteq> Inl ZeroDivisionError"
  by (auto simp: em_step_def bind_err_def get_item_def argmax_def split: sum.splits list.splits)

lemma f1_step_no_zde: "f1_step L gS gE pS pE t i \<noteq> Inl ZeroDivisionError"
  unfolding f1_step_def
  by (intro bind_err_no_zde get_item_no_zde argmax_no_zde) simp

text \<open>
  C3, as stated, fails: over zero samples both metrics raise ZeroDivisionError.
\<close>

theorem metrics_zero_samples_counterexample:
  "get_exact_match [] [] [] [] [] = Inl ZeroDivisionError
   \<and> get_f1 5 [] [] [] [] [] = Inl ZeroDivisionError"
  by code_simp

text \<open>
  C3, amended. Neither metric guards the zero-sample case: with no gold sample
  \<open>get_exact_match\<close> and \<open>get_f1\<close> both raise ZeroDivisionError, whatever the other
  arguments; with at least one gold sample neither raises ZeroDivisionError.
\<close>

theorem metrics_zero_samples:
  "(gS = [] \<longrightarrow> get_exact_match gS gE predS predE m = Inl ZeroDivisionError
                \<and> get_f1 L gS gE predS predE m = Inl ZeroDivisionError)
   \<and> (gS \<noteq> [] \<longrightarrow> get_exact_match gS gE predS predE m \<noteq> Inl ZeroDivisionError
                \<and> get_f1 L gS gE predS predE m \<noteq> Inl ZeroDivisionError)"
proof -
  have "get_exact_match [] gE predS predE m = Inl ZeroDivisionError"
    "get_f1 L [] gE predS predE m = Inl ZeroDivisionError"
    by (simp_all add: get_exact_match_def get_f1_def)
  moreover have "get_exact_match gS gE predS predE m \<noteq> Inl ZeroDivisionError" if "gS \<noteq> []"
    unfolding get_exact_match_def
    using that by (intro bind_err_no_zde loop_err_no_zde em_step_no_zde) simp
  moreover have "get_f1 L gS gE predS predE m \<noteq> Inl ZeroDivisionError" if "gS \<noteq> []"
    unfolding get_f1_def
    using that by (intro bind_err_no_zde loop_err_no_zde f1_step_no_zde) simp
  ultimately show ?thesis by blast
qed

text \<open>The amended statement at no sample and at one sample.\<close>

theorem metrics_zero_samples_witness:
  "get_exact_match [] [[1]] [0] [0] [] = Inl ZeroDivisionError
   \<and> get_f1 4 [] [[1]] [0] [0] [] = Inl ZeroDivisionError
   \<and> get_exact_match [[1, 0]] [[0, 1]] [0] [0] [] \<noteq> Inl ZeroDivisionError
   \<and> get_f1 2 [[1, 0]] [[0, 1]] [0] [0] [] \<noteq> Inl ZeroDivisionError"
  using metrics_zero_samples [of "[]" "[[1]]" "[0]" "[0]" "[]" 4]
    metrics_zero_samples [of "[[1, 0]]" "[[0, 1]]" "[0]" "[0]" "[]" 2]
  by simp

section \<open>Properties of load_and_preprocess_data\<close>






lemma bind_err_Inr_D: "bind_err r f = Inr y \<Longrightarrow> \<exists>x. r = Inr x \<and> f x = Inr y"
  by (cases r) auto






section \<open>Properties of the batch cursor\<close>

lemma get_slice_nat: "get_slice p (int s) (int s + int B) = take B (drop s p)"
proof -
  have "nat (int s + int B) = s + B" by linarith
  then show ?thesis
    by (cases "s \<le> length p") (auto simp: get_slice_def slice_bound_def Let_def min_def)
qed

lemma take_rows_ok:
  "\<forall>i \<in> set idx. i < length X \<Longrightarrow> take_rows X idx = Inr (map ((!) X) idx)"
  unfolding take_rows_def by (rule map_err_Inr) (simp add: get_item_def)

lemma next_batch_ready:
  assumes "batch_index self < max_batch_index self" and "dataset_size self N"
    and "set (batch_permutation self) \<subseteq> {0..<N}"
  shows "next_batch rp self B =
     Inr (rows_at self (take B (drop (batch_index self) (batch_permutation self))),
          self\<lparr>batch_index := batch_index self + B\<rparr>)"
proof -
  let ?idx = "take B (drop (batch_index self) (batch_permutation self))"
  have "set ?idx \<subseteq> set (batch_permutation self)"
    by (meson set_take_subset set_drop_subset subset_trans)
  with assms(3) have "\<forall>i \<in> set ?idx. i < N" by auto
  with assms(2) have
    "take_rows (X_c self) ?idx = Inr (map ((!) (X_c self)) ?idx)"
    "take_rows (X_c_mask self) ?idx = Inr (map ((!) (X_c_mask self)) ?idx)"
    "take_rows (X_q self) ?idx = Inr (map ((!) (X_q self)) ?idx)"
    "take_rows (X_q_mask self) ?idx = Inr (map ((!) (X_q_mask self)) ?idx)"
    "take_rows (yS self) ?idx = Inr (map ((!) (yS self)) ?idx)"
    "take_rows (yE self) ?idx = Inr (map ((!) (yE self)) ?idx)"
    by (simp_all add: dataset_size_def take_rows_ok)
  with assms(1) show ?thesis
    by (simp add: next_batch_def Let_def get_slice_nat rows_at_def)
qed

lemma next_batches_ready:
  assumes "dataset_size self N" and "set (batch_permutation self) \<subseteq> {0..<N}"
    and "max_batch_index self = N"
    and "m = 0 \<or> batch_index self + (m - 1) * B < N"
  shows "next_batches rp B m self =
     Inr (map (\<lambda>j. rows_at self (take B (drop (batch_index self + j * B) (batch_permutation self)))) [0..<m],
          self\<lparr>batch_index := batch_index self + m * B\<rparr>)"
  using assms
proof (induction m arbitrary: self)
  case 0
  then show ?case by simp
next
  case (Suc m)
  let ?self' = "self\<lparr>batch_index := batch_index self + B\<rparr>"
  from Suc.prems have lt: "batch_index self < max_batch_index self"
    by auto
  have nb: "next_batch rp self B =
     Inr (rows_at self (take B (drop (batch_index self) (batch_permutation self))), ?self')"
    by (rule next_batch_ready [OF lt Suc.prems(1,2)])
  have d: "dataset_size ?self' N" "set (batch_permutation ?self') \<subseteq> {0..<N}" "max_batch_index ?self' = N"
    using Suc.prems by (simp_all add: dataset_size_def)
  have c: "m = 0 \<or> batch_index ?self' + (m - 1) * B < N"
  proof (cases m)
    case 0
    then show ?thesis by simp
  next
    case (Suc m')
    with Suc.prems(4) show ?thesis by simp
  qed
  have r: "rows_at ?self' idx = rows_at self idx" for idx
    by (simp add: rows_at_def)
  from Suc.IH [OF d c] nb show ?case
    by (simp add: r map_upt_Suc add.assoc del: upt_Suc)
qed

lemma concat_chunks: "concat (map (chunk B p) [0..<n]) = take (n * B) p"
proof (induction n)
  case 0
  then show ?case by simp
next
  case (Suc n)
  have "take (B + n * B) p = take (n * B) p @ take B (drop (n * B) p)"
    using take_add [of "n * B" B p] by (simp add: add.commute)
  with Suc show ?case by (simp add: chunk_def)
qed

lemma ceil_div_bounds:
  assumes "0 < (N::nat)" and "0 < (B::nat)"
  shows "0 < (N + B - 1) div B" and "((N + B - 1) div B - 1) * B < N" and "N \<le> (N + B - 1) div B * B"
proof -
  let ?n = "(N + B - 1) div B"
  from assms have "B \<le> N + B - 1" by linarith
  with assms show pos: "0 < ?n"
    by (simp add: div_greater_zero_iff)
  have le: "?n * B \<le> N + B - 1"
    by simp
  from pos have "(?n - 1) * B + B = ?n * B"
    by (metis Suc_diff_1 add.commute mult_Suc)
  with le assms show "(?n - 1) * B < N" by linarith
  from assms(2) have "N + B - 1 < B + ?n * B"
    by (rule dividend_less_div_times)
  with assms show "N \<le> ?n * B" by linarith
qed


lemma mset_argsort: "mset (argsort ks) = mset [0..<length ks]"
proof -
  have "mset (map snd (sort_key fst (zip ks [0..<length ks]))) =
        image_mset snd (mset (sort_key fst (zip ks [0..<length ks])))"
    by (simp only: mset_map)
  also have "\<dots> = image_mset snd (mset (zip ks [0..<length ks]))"
    by (simp only: mset_sort)
  also have "\<dots> = mset (map snd (zip ks [0..<length ks]))"
    by (simp only: mset_map)
  also have "map snd (zip ks [0..<length ks]) = [0..<length ks]"
    by (rule map_snd_zip) simp
  finally show ?thesis by (simp only: argsort_def)
qed

lemma initialize_start:
  assumes "initialize_batch_processing rp self0 N mode = Inr self"
    and "\<forall>g. mset (rp g N) = mset [0..<N]" and "length (X_c_mask self) = N"
  shows "max_batch_index self = N \<and> batch_index self = 0
         \<and> mset (batch_permutation self) = mset [0..<N]"
proof (cases "mode = Some ''by_length''")
  case True
  with assms(1) [symmetric] have eq: "self = self0\<lparr>batch_index := 0, max_batch_index := N,
          batch_permutation := argsort (map (\<lambda>r. length (filter id r)) (X_c_mask self0))\<rparr>"
    by (simp add: initialize_batch_processing_def Let_def split: if_splits)
  with assms(3) have "length (map (\<lambda>r. length (filter id r)) (X_c_mask self0)) = N" by simp
  with mset_argsort [of "map (\<lambda>r. length (filter id r)) (X_c_mask self0)"]
  have "mset (argsort (map (\<lambda>r. length (filter id r)) (X_c_mask self0))) = mset [0..<N]"
    by (simp only:)
  with eq show ?thesis by simp
next
  case False
  show ?thesis
  proof (cases "mode = Some ''random''")
    case True
    with False assms(1) [symmetric] have "self = self0\<lparr>batch_index := 0, max_batch_index := N,
          batch_permutation := rp (rng self0) N, rng := Suc (rng self0)\<rparr>"
      by (simp add: initialize_batch_processing_def Let_def)
    with assms(2) show ?thesis by simp
  next
    case nr: False
    with False assms(1) [symmetric]
    have "self = self0\<lparr>batch_index := 0, max_batch_index := N, batch_permutation := [0..<N]\<rparr>"
      by (simp add: initialize_batch_processing_def Let_def)
    then show ?thesis by simp
  qed
qed

lemma next_batch_wrap:
  assumes "max_batch_index self \<le> batch_index self" and "0 < max_batch_index self"
  shows "next_batch rp self B =
         next_batch rp (self\<lparr>batch_index := 0,
                             batch_permutation := rp (rng self) (max_batch_index self),
                             rng := Suc (rng self)\<rparr>) B"
  using assms by (simp add: next_batch_def Let_def)

text \<open>
  C1. Take \<open>N > 0\<close> samples in each of the six arrays, a batch size \<open>B > 0\<close> and a random
  source that draws permutations of \<open>[0, N)\<close>. Start right after
  \<open>initialize_batch_processing\<close> (in any of its three modes), or in a state whose cursor
  has reached \<open>N\<close>, so that the next call wraps. Let \<open>p\<close> be the permutation of the cycle
  (the initial one, or the one drawn at the wrap) and \<open>n\<close> the ceiling of \<open>N / B\<close>. Then
  \<open>p\<close> is a permutation of \<open>[0, N)\<close>; the next \<open>n\<close> calls of \<open>next_batch\<close> all return, the
  \<open>k\<close>-th with the rows at the indices \<open>chunk B p k\<close>; the chunks concatenated are \<open>p\<close>, so
  every index is issued exactly once; each chunk starts below \<open>N\<close> and has \<open>B\<close> indices,
  except that the last has the \<open>N - k * B\<close> remaining ones; the permutation is not
  replaced within the cycle, and the cursor ends at \<open>n * B\<close>, at or beyond \<open>N\<close>, so that
  the call after these wraps.
\<close>

theorem next_batch_cycle:
  assumes "0 < N" and "0 < B" and "dataset_size self N"
    and "\<forall>g. mset (rand_perm g N) = mset [0..<N]"
    and "initialize_batch_processing rand_perm self0 N mode = Inr self
         \<or> (max_batch_index self = N \<and> N \<le> batch_index self)"
  shows "let p = (if N \<le> batch_index self then rand_perm (rng self) N else batch_permutation self);
             n = (N + B - 1) div B
         in mset p = mset [0..<N] \<and> distinct p \<and> set p = {0..<N}
            \<and> concat (map (chunk B p) [0..<n]) = p
            \<and> (\<forall>k < n. k * B < N \<and> length (chunk B p k) = min B (N - k * B))
            \<and> (\<exists>self'. next_batches rand_perm B n self =
                          Inr (map (\<lambda>k. rows_at self (chunk B p k)) [0..<n], self')
                  \<and> batch_permutation self' = p \<and> max_batch_index self' = N
                  \<and> batch_index self' = n * B \<and> N \<le> batch_index self')"
proof -
  define p where "p = (if N \<le> batch_index self then rand_perm (rng self) N else batch_permutation self)"
  define n where "n = (N + B - 1) div B"
  define s0 where "s0 = (if N \<le> batch_index self
     then self\<lparr>batch_index := 0, batch_permutation := rand_perm (rng self) N, rng := Suc (rng self)\<rparr>
     else self)"
  from ceil_div_bounds [OF assms(1,2)]
  have n: "0 < n" "(n - 1) * B < N" "N \<le> n * B"
    by (simp_all add: n_def)
  have mx: "max_batch_index self = N"
    using assms(3,4,5) initialize_start [of rand_perm self0 N mode self]
    by (auto simp: dataset_size_def)
  have ready: "\<not> N \<le> batch_index self \<Longrightarrow> batch_index self = 0 \<and> mset (batch_permutation self) = mset [0..<N]"
    using assms(3,4,5) initialize_start [of rand_perm self0 N mode self]
    by (auto simp: dataset_size_def)
  have mp: "mset p = mset [0..<N]"
    using ready assms(4) by (auto simp: p_def)
  then have sp: "set p = {0..<N}" and dp: "distinct p" and lp: "length p = N"
    using mset_eq_setD [OF mp] mset_eq_imp_distinct_iff [OF mp] mset_eq_length [OF mp]
    by simp_all
  have s0: "batch_index s0 = 0" "max_batch_index s0 = N" "batch_permutation s0 = p"
    "dataset_size s0 N"
    using ready mx assms(3) by (auto simp: s0_def p_def dataset_size_def)
  have rows: "rows_at s0 idx = rows_at self idx" for idx
    by (simp add: s0_def rows_at_def)
  obtain n' where n': "n = Suc n'"
    using n(1) by (cases n) auto
  have "next_batch rand_perm self B = next_batch rand_perm s0 B"
    using next_batch_wrap [of self rand_perm B] mx assms(1) by (simp add: s0_def)
  then have same: "next_batches rand_perm B n self = next_batches rand_perm B n s0"
    by (simp add: n')
  have "next_batches rand_perm B n s0 =
     Inr (map (\<lambda>j. rows_at s0 (take B (drop (batch_index s0 + j * B) (batch_permutation s0)))) [0..<n],
          s0\<lparr>batch_index := batch_index s0 + n * B\<rparr>)"
    using s0 sp n by (intro next_batches_ready [of s0 N]) simp_all
  with same have run: "next_batches rand_perm B n self =
     Inr (map (\<lambda>k. rows_at self (chunk B p k)) [0..<n], s0\<lparr>batch_index := n * B\<rparr>)"
    by (simp add: s0 rows chunk_def)
  have cc: "concat (map (chunk B p) [0..<n]) = p"
    using n(3) lp by (simp add: concat_chunks)
  have ch: "k * B < N \<and> length (chunk B p k) = min B (N - k * B)" if "k < n" for k
  proof -
    from that have "k \<le> n - 1" by simp
    then have "k * B \<le> (n - 1) * B" by (rule mult_le_mono1)
    with n(2) have "k * B < N" by linarith
    moreover have "length (chunk B p k) = min B (N - k * B)"
      unfolding chunk_def by (simp add: lp min_def)
    ultimately show ?thesis by (rule conjI)
  qed
  then have chunks: "\<forall>k < n. k * B < N \<and> length (chunk B p k) = min B (N - k * B)"
    by blast
  have fin: "batch_permutation (s0\<lparr>batch_index := n * B\<rparr>) = p"
    "max_batch_index (s0\<lparr>batch_index := n * B\<rparr>) = N"
    "batch_index (s0\<lparr>batch_index := n * B\<rparr>) = n * B"
    by (simp_all add: s0(1,2,3))
  have ex: "\<exists>self'. next_batches rand_perm B n self =
                          Inr (map (\<lambda>k. rows_at self (chunk B p k)) [0..<n], self')
                  \<and> batch_permutation self' = p \<and> max_batch_index self' = N
                  \<and> batch_index self' = n * B \<and> N \<le> batch_index self'"
  proof (rule exI [of _ "s0\<lparr>batch_index := n * B\<rparr>"], intro conjI)
    show "next_batches rand_perm B n self =
          Inr (map (\<lambda>k. rows_at self (chunk B p k)) [0..<n], s0\<lparr>batch_index := n * B\<rparr>)"
      by (rule run)
    show "batch_permutation (s0\<lparr>batch_index := n * B\<rparr>) = p" by (rule fin(1))
    show "max_batch_index (s0\<lparr>batch_index := n * B\<rparr>) = N" by (rule fin(2))
    show "batch_index (s0\<lparr>batch_index := n * B\<rparr>) = n * B" by (rule fin(3))
    show "N \<le> batch_index (s0\<lparr>batch_index := n * B\<rparr>)"
      unfolding fin(3) by (rule n(3))
  qed
  have "mset p = mset [0..<N] \<and> distinct p \<and> set p = {0..<N}
            \<and> concat (map (chunk B p) [0..<n]) = p
            \<and> (\<forall>k < n. k * B < N \<and> length (chunk B p k) = min B (N - k * B))
            \<and> (\<exists>self'. next_batches rand_perm B n self =
                          Inr (map (\<lambda>k. rows_at self (chunk B p k)) [0..<n], self')
                  \<and> batch_permutation self' = p \<and> max_batch_index self' = N
                  \<and> batch_index self' = n * B \<and> N \<le> batch_index self')"
    by (intro conjI mp dp sp cc chunks ex)
  then show ?thesis
    unfolding Let_def p_def n_def .
qed


text \<open>
  Three samples, batches of two, starting with the cursor at 5: the wrap draws
  \<open>[2, 1, 0]\<close>, and the two calls return the rows at \<open>[2, 1]\<close> and at \<open>[0]\<close>.
\<close>

theorem next_batch_cycle_witness:
  "dataset_size (cycler_model 5) 3
   \<and> (\<exists>self'. next_batches (\<lambda>g n. rev [0..<n]) 2 2 (cycler_model 5) =
                 Inr ([rows_at (cycler_model 5) [2, 1], rows_at (cycler_model 5) [0]], self')
          \<and> batch_permutation self' = [2, 1, 0] \<and> batch_index self' = 4)"
proof -
  have h3: "dataset_size (cycler_model 5) 3"
    by (simp add: dataset_size_def cycler_model_def)
  have h4: "\<forall>g. mset ((\<lambda>g n. rev [0..<n]) g (3::nat)) = mset [0..<3]"
    by simp
  have h5: "initialize_batch_processing (\<lambda>g n. rev [0..<n]) (cycler_model 0) 3 None = Inr (cycler_model 5)
            \<or> (max_batch_index (cycler_model 5) = 3 \<and> 3 \<le> batch_index (cycler_model 5))"
    by (simp add: cycler_model_def)
  have e: "rev [0..<3::nat] = [2, 1, 0]" "(3 + 2 - 1) div 2 = (2::nat)" "[0..<2::nat] = [0, 1]"
    "(3::nat) \<le> batch_index (cycler_model 5)"
    by code_simp+
  have c: "chunk 2 [2, Suc 0, 0] 0 = [2, Suc 0]" "chunk 2 [2, Suc 0, 0] (Suc 0) = [0]"
    by (simp_all add: chunk_def)
  from next_batch_cycle [of 3 2 "cycler_model 5" "\<lambda>g n. rev [0..<n]" "cycler_model 0" None, OF _ _ h3 h4 h5]
  have "\<exists>self'. next_batches (\<lambda>g n. rev [0..<n]) 2 2 (cycler_model 5) =
                 Inr ([rows_at (cycler_model 5) [2, 1], rows_at (cycler_model 5) [0]], self')
          \<and> batch_permutation self' = [2, 1, 0] \<and> batch_index self' = 4"
    by (auto simp: Let_def e c)
  with h3 show ?thesis by (rule conjI)
qed

section \<open>Properties of the training loop\<close>

lemma windows_short: "length a < 20 \<Longrightarrow> windows a = []"
  by (simp add: windows_def)

lemma leftover_short: "length a < 20 \<Longrightarrow> leftover a = a"
  by (simp add: leftover_def)

lemma windows_full: "length a = 20 \<Longrightarrow> windows (a @ xs) = a # windows xs"
proof -
  assume a: "length a = 20"
  have d: "(20 + length xs) div 20 = Suc (length xs div 20)" by simp
  show ?thesis
    unfolding windows_def
    by (simp add: a d map_upt_Suc del: upt_Suc)
qed

lemma leftover_full: "length a = 20 \<Longrightarrow> leftover (a @ xs) = leftover xs"
proof -
  assume a: "length a = 20"
  have d: "(20 + length xs) div 20 = Suc (length xs div 20)" by simp
  show ?thesis
    unfolding leftover_def by (simp add: a d)
qed

lemma length_windows: "length (windows xs) = length xs div 20"
  by (simp add: windows_def)

lemma length_window: "k < length xs div 20 \<Longrightarrow> length (windows xs ! k) = 20"
proof -
  assume k: "k < length xs div 20"
  then have "Suc k \<le> length xs div 20" by simp
  then have "20 * Suc k \<le> 20 * (length xs div 20)" by simp
  also have "\<dots> \<le> length xs" by simp
  finally have "20 + 20 * k \<le> length xs" by simp
  with k show ?thesis by (simp add: windows_def)
qed

lemma length_leftover: "length (leftover xs) = length xs mod 20"
  by (simp add: leftover_def modulo_nat_def)


lemma recorded_Nil: "acc_ok st \<Longrightarrow> recorded [] st = st"
  by (simp add: recorded_def acc_ok_def windows_short leftover_short)

lemma window_step_full:
  "length a = 19 \<Longrightarrow> windows (a @ x # xs) = (a @ [x]) # windows xs"
  "length a = 19 \<Longrightarrow> leftover (a @ x # xs) = leftover xs"
  using windows_full [of "a @ [x]" xs] leftover_full [of "a @ [x]" xs] by simp_all

lemma recorded_Cons_flush:
  assumes "acc_ok st" and "length (losses st) = 19"
  shows "recorded (sc # scs) st = recorded scs (record_step sc st)"
proof -
  from assms have l: "length (EMs st) = 19" "length (f1s st) = 19" "length (grad_norms st) = 19"
    by (simp_all add: acc_ok_def)
  obtain a b c d where sc: "sc = (a, b, c, d)" by (cases sc) auto
  show ?thesis
    by (simp add: recorded_def record_step_def sc Let_def assms(2) l window_step_full
        loss_of_def em_of_def f1_of_def grad_norm_of_def)
qed

lemma recorded_Cons_keep:
  assumes "length (losses st) < 19"
  shows "recorded (sc # scs) st = recorded scs (record_step sc st)"
proof -
  obtain a b c d where sc: "sc = (a, b, c, d)" by (cases sc) auto
  from assms show ?thesis
    by (simp add: recorded_def record_step_def sc Let_def
        loss_of_def em_of_def f1_of_def grad_norm_of_def)
qed

lemma acc_ok_record_step: "acc_ok st \<Longrightarrow> acc_ok (record_step sc st)"
  by (cases sc) (auto simp: acc_ok_def record_step_def Let_def)

lemma record_all_eq: "acc_ok st \<Longrightarrow> record_all scs st = recorded scs st"
proof (induction scs arbitrary: st)
  case Nil
  then show ?case by (simp add: record_all_def recorded_Nil)
next
  case (Cons sc scs)
  from Cons.prems have "length (losses st) = 19 \<or> length (losses st) < 19"
    by (auto simp: acc_ok_def)
  with Cons.prems have "recorded (sc # scs) st = recorded scs (record_step sc st)"
    by (auto intro: recorded_Cons_flush recorded_Cons_keep)
  moreover have "record_all (sc # scs) st = record_all scs (record_step sc st)"
    by (simp add: record_all_def)
  ultimately show ?case
    using Cons.IH [OF acc_ok_record_step [OF Cons.prems]] by simp
qed


lemma record_step_model [simp]:
  "model (record_step sc st) = model st" "session (record_step sc st) = session st"
  by (cases sc; simp add: record_step_def Let_def)+

lemma record_step_update:
  "record_step sc (st\<lparr>model := m, session := w\<rparr>) = (record_step sc st)\<lparr>model := m, session := w\<rparr>"
  by (cases sc) (simp add: record_step_def Let_def)

lemma record_all_update:
  "record_all scs (st\<lparr>model := m, session := w\<rparr>) = (record_all scs st)\<lparr>model := m, session := w\<rparr>"
proof (induction scs arbitrary: st)
  case Nil
  then show ?case by (simp add: record_all_def)
next
  case (Cons sc scs)
  have "record_all (sc # scs) (st\<lparr>model := m, session := w\<rparr>) =
        record_all scs ((record_step sc st)\<lparr>model := m, session := w\<rparr>)"
    by (simp add: record_all_def record_step_update)
  also have "\<dots> = (record_all scs (record_step sc st))\<lparr>model := m, session := w\<rparr>"
    by (rule Cons.IH)
  finally show ?case by (simp add: record_all_def)
qed

lemma epoch_loop:
  "repeat_err n (epoch_step rp rt B) st =
     (case run_steps rp rt B n (model st, session st) of
        Inl e \<Rightarrow> Inl e
      | Inr (tr, mw) \<Rightarrow> Inr ((record_all tr st)\<lparr>model := fst mw, session := snd mw\<rparr>))"
proof (induction n arbitrary: st)
  case 0
  then show ?case by (simp add: record_all_def)
next
  case (Suc n)
  show ?case
  proof (cases "train_step rp rt B (model st, session st)")
    case (Inl e)
    then show ?thesis by (simp add: epoch_step_def)
  next
    case (Inr r)
    obtain sc m' w' where r: "r = (sc, m', w')" by (cases r) auto
    let ?st1 = "record_step sc (st\<lparr>model := m', session := w'\<rparr>)"
    have step: "epoch_step rp rt B st = Inr ?st1"
      by (simp add: epoch_step_def Inr r)
    have ms: "model ?st1 = m'" "session ?st1 = w'" by simp_all
    have ra: "record_all tr ?st1 = (record_all (sc # tr) st)\<lparr>model := m', session := w'\<rparr>" for tr
      by (simp add: record_step_update record_all_update) (simp add: record_all_def)
    show ?thesis
    proof (cases "run_steps rp rt B n (m', w')")
      case (Inl e)
      with Suc.IH [of ?st1] step Inr r ms show ?thesis by simp
    next
      case rs: (Inr q)
      obtain tr mw where q: "q = (tr, mw)" by (cases q) auto
      from Suc.IH [of ?st1] step Inr r ms rs q show ?thesis
        by (simp add: ra)
    qed
  qed
qed

lemma length_run_steps:
  "run_steps rp rt B n mw = Inr (tr, mw') \<Longrightarrow> length tr = n"
proof (induction n arbitrary: mw tr)
  case 0
  then show ?case by simp
next
  case (Suc n)
  from Suc.prems obtain sc m1 scs where
    "run_steps rp rt B n m1 = Inr (scs, mw')" "tr = sc # scs"
    by (auto simp: bind_err_def split: sum.splits prod.splits)
  with Suc.IH show ?case by auto
qed

lemma steps_count: "0 < B \<Longrightarrow> nat \<lfloor>real N / real B\<rfloor> = N div B"
  by (simp add: floor_divide_of_nat_eq)

lemma train_epoch_eq:
  assumes "0 < B"
  shows "train_epoch rp rt B N st =
     (case run_steps rp rt B (N div B) (model st, session st) of
        Inl e \<Rightarrow> Inl e
      | Inr (tr, mw) \<Rightarrow>
          Inr (st\<lparr>model := fst mw, session := snd mw,
                 losses := leftover (map loss_of tr), EMs := leftover (map em_of tr),
                 f1s := leftover (map f1_of tr), grad_norms := leftover (map grad_norm_of tr),
                 global_losses := global_losses st @ map np_mean (windows (map loss_of tr)),
                 global_EMs := global_EMs st @ map np_mean (windows (map em_of tr)),
                 global_f1s := global_f1s st @ map np_mean (windows (map f1_of tr)),
                 global_grad_norms :=
                   global_grad_norms st @ map np_mean (windows (map grad_norm_of tr))\<rparr>))"
proof -
  let ?st0 = "st\<lparr>losses := [], EMs := [], f1s := [], grad_norms := []\<rparr>"
  have ok: "acc_ok ?st0" by (simp add: acc_ok_def)
  have "train_epoch rp rt B N st = repeat_err (N div B) (epoch_step rp rt B) ?st0"
    using assms by (simp add: train_epoch_def steps_count)
  also have "\<dots> = (case run_steps rp rt B (N div B) (model st, session st) of
        Inl e \<Rightarrow> Inl e
      | Inr (tr, mw) \<Rightarrow> Inr ((recorded tr ?st0)\<lparr>model := fst mw, session := snd mw\<rparr>))"
    by (simp add: epoch_loop record_all_eq [OF ok] split: sum.splits)
  finally show ?thesis
    by (simp add: recorded_def split: sum.splits)
qed


lemma train_epoch_lengths:
  assumes "0 < B" and "train_epoch rp rt B N st = Inr st'"
  shows "length (global_losses st') = length (global_losses st) + N div B div 20"
    and "length (global_EMs st') = length (global_EMs st) + N div B div 20"
    and "length (global_f1s st') = length (global_f1s st) + N div B div 20"
    and "length (global_grad_norms st') = length (global_grad_norms st) + N div B div 20"
proof -
  from assms(2) [unfolded train_epoch_eq [OF assms(1)]] obtain tr mw where
    rs: "run_steps rp rt B (N div B) (model st, session st) = Inr (tr, mw)"
    and st': "st' = st\<lparr>model := fst mw, session := snd mw,
                 losses := leftover (map loss_of tr), EMs := leftover (map em_of tr),
                 f1s := leftover (map f1_of tr), grad_norms := leftover (map grad_norm_of tr),
                 global_losses := global_losses st @ map np_mean (windows (map loss_of tr)),
                 global_EMs := global_EMs st @ map np_mean (windows (map em_of tr)),
                 global_f1s := global_f1s st @ map np_mean (windows (map f1_of tr)),
                 global_grad_norms :=
                   global_grad_norms st @ map np_mean (windows (map grad_norm_of tr))\<rparr>"
    by (auto split: sum.splits)
  from length_run_steps [OF rs] have "length tr = N div B" .
  then show "length (global_losses st') = length (global_losses st) + N div B div 20"
    and "length (global_EMs st') = length (global_EMs st) + N div B div 20"
    and "length (global_f1s st') = length (global_f1s st) + N div B div 20"
    and "length (global_grad_norms st') = length (global_grad_norms st) + N div B div 20"
    by (simp_all add: st' length_windows)
qed

lemma validate_Inr_D:
  assumes "validate rv st = Inr st'"
  shows "global_losses st' = global_losses st" and "global_EMs st' = global_EMs st"
    and "global_f1s st' = global_f1s st" and "global_grad_norms st' = global_grad_norms st"
    and "length (EMs_val st') = Suc (length (EMs_val st))"
    and "length (F1s_val st') = Suc (length (F1s_val st))"
  using assms
  by (auto simp: validate_def Let_def dest!: bind_err_Inr_D split: prod.splits)

lemma repeat_err_count:
  fixes g :: "'s \<Rightarrow> nat"
  assumes "\<And>s s'. f s = Inr s' \<Longrightarrow> g s' = g s + c" and "repeat_err n f s = Inr s'"
  shows "g s' = g s + n * c"
  using assms(2)
proof (induction n arbitrary: s)
  case 0
  then show ?case by simp
next
  case (Suc n)
  from Suc.prems obtain s1 where "f s = Inr s1" "repeat_err n f s1 = Inr s'"
    by (auto dest!: bind_err_Inr_D)
  with Suc.IH [of s1] assms(1) [of s s1] show ?case by simp
qed

lemma train_history_lengths:
  assumes "0 < B" and "train rp rt rv epochs B w0 self0 = Inr st'"
  shows "length (global_losses st') = epochs * (length (yS self0) div B div 20)"
    and "length (global_EMs st') = epochs * (length (yS self0) div B div 20)"
    and "length (global_f1s st') = epochs * (length (yS self0) div B div 20)"
    and "length (global_grad_norms st') = epochs * (length (yS self0) div B div 20)"
    and "length (EMs_val st') = epochs" and "length (F1s_val st') = epochs"
proof -
  let ?N = "length (yS self0)"
  let ?f = "\<lambda>st. bind_err (train_epoch rp rt B ?N st) (validate rv)"
  from assms(2) obtain self where
    run: "repeat_err epochs ?f
            \<lparr>model = self, session = w0, losses = [], EMs = [], f1s = [], grad_norms = [],
             global_losses = [], global_EMs = [], global_f1s = [], global_grad_norms = [],
             EMs_val = [], F1s_val = []\<rparr> = Inr st'"
    by (auto simp: train_def Let_def dest!: bind_err_Inr_D)
  have step: "length (global_losses s') = length (global_losses s) + ?N div B div 20
      \<and> length (global_EMs s') = length (global_EMs s) + ?N div B div 20
      \<and> length (global_f1s s') = length (global_f1s s) + ?N div B div 20
      \<and> length (global_grad_norms s') = length (global_grad_norms s) + ?N div B div 20
      \<and> length (EMs_val s') = length (EMs_val s) + 1
      \<and> length (F1s_val s') = length (F1s_val s) + 1" if "?f s = Inr s'" for s s'
  proof -
    from that obtain s1 where e: "train_epoch rp rt B ?N s = Inr s1" and v: "validate rv s1 = Inr s'"
      by (auto dest!: bind_err_Inr_D)
    have "EMs_val s1 = EMs_val s" "F1s_val s1 = F1s_val s"
      using e [unfolded train_epoch_eq [OF assms(1)]] by (auto split: sum.splits)
    with train_epoch_lengths [OF assms(1) e] validate_Inr_D [OF v] show ?thesis by simp
  qed
  show "length (global_losses st') = epochs * (length (yS self0) div B div 20)"
    using repeat_err_count [of ?f "\<lambda>s. length (global_losses s)" "?N div B div 20", OF _ run] step
    by simp
  show "length (global_EMs st') = epochs * (length (yS self0) div B div 20)"
    using repeat_err_count [of ?f "\<lambda>s. length (global_EMs s)" "?N div B div 20", OF _ run] step
    by simp
  show "length (global_f1s st') = epochs * (length (yS self0) div B div 20)"
    using repeat_err_count [of ?f "\<lambda>s. length (global_f1s s)" "?N div B div 20", OF _ run] step
    by simp
  show "length (global_grad_norms st') = epochs * (length (yS self0) div B div 20)"
    using repeat_err_count [of ?f "\<lambda>s. length (global_grad_norms s)" "?N div B div 20", OF _ run] step
    by simp
  show "length (EMs_val st') = epochs"
    using repeat_err_count [of ?f "\<lambda>s. length (EMs_val s)" 1, OF _ run] step
    by simp
  show "length (F1s_val st') = epochs"
    using repeat_err_count [of ?f "\<lambda>s. length (F1s_val s)" 1, OF _ run] step
    by simp
qed

lemma run_steps_21_const:
  "map_sum id (\<lambda>r. (fst r, snd (snd r)))
     (run_steps (\<lambda>g n. rev [0..<n]) run_train_const 1 21 (train_model, 0)) =
   Inr (replicate 21 (1 / 2, 1, 1, 2), 21)"
  by code_simp


text \<open>
  C7. With a batch size above 0, the training part of an epoch runs exactly
  \<open>n_samples div batch_size\<close> steps: it fails if one of the steps fails, and otherwise the
  sequence \<open>tr\<close> of the scalars of the steps has that length. The history gains, for each
  of loss, EM, F1 and gradient norm, the means of the consecutive full windows of 20
  values of \<open>tr\<close>, in order, one per 20 steps; the accumulators, emptied at each of these
  points, end as the last \<open>(n_samples div batch_size) mod 20\<close> values, which are never
  added to the history. Over a whole run of \<open>train\<close> each history has
  \<open>epochs * (n_samples div batch_size div 20)\<close> entries, with \<open>n_samples = len(yS)\<close>: the
  partial window at the end of each epoch is dropped.
\<close>

theorem train_epoch_steps_and_windows:
  assumes "0 < batch_size"
  shows "train_epoch rand_perm run_train batch_size n_samples st =
          (case run_steps rand_perm run_train batch_size (n_samples div batch_size)
                  (model st, session st) of
             Inl e \<Rightarrow> Inl e
           | Inr (tr, mw) \<Rightarrow>
               Inr (st\<lparr>model := fst mw, session := snd mw,
                      losses := leftover (map loss_of tr), EMs := leftover (map em_of tr),
                      f1s := leftover (map f1_of tr),
                      grad_norms := leftover (map grad_norm_of tr),
                      global_losses := global_losses st @ map np_mean (windows (map loss_of tr)),
                      global_EMs := global_EMs st @ map np_mean (windows (map em_of tr)),
                      global_f1s := global_f1s st @ map np_mean (windows (map f1_of tr)),
                      global_grad_norms :=
                        global_grad_norms st @ map np_mean (windows (map grad_norm_of tr))\<rparr>))
       \<and> (\<forall>tr mw. run_steps rand_perm run_train batch_size (n_samples div batch_size)
                      (model st, session st) = Inr (tr, mw) \<longrightarrow>
             length tr = n_samples div batch_size
             \<and> length (windows (map loss_of tr)) = n_samples div batch_size div 20
             \<and> (\<forall>k < n_samples div batch_size div 20. length (windows (map loss_of tr) ! k) = 20)
             \<and> length (leftover (map loss_of tr)) = n_samples div batch_size mod 20)
       \<and> (\<forall>st'. train rand_perm run_train run_val epochs batch_size w0 self0 = Inr st' \<longrightarrow>
             length (global_losses st') = epochs * (length (yS self0) div batch_size div 20)
             \<and> length (global_EMs st') = epochs * (length (yS self0) div batch_size div 20)
             \<and> length (global_f1s st') = epochs * (length (yS self0) div batch_size div 20)
             \<and> length (global_grad_norms st') = epochs * (length (yS self0) div batch_size div 20))"
proof (intro conjI allI impI)
  show "train_epoch rand_perm run_train batch_size n_samples st =
          (case run_steps rand_perm run_train batch_size (n_samples div batch_size)
                  (model st, session st) of
             Inl e \<Rightarrow> Inl e
           | Inr (tr, mw) \<Rightarrow>
               Inr (st\<lparr>model := fst mw, session := snd mw,
                      losses := leftover (map loss_of tr), EMs := leftover (map em_of tr),
                      f1s := leftover (map f1_of tr),
                      grad_norms := leftover (map grad_norm_of tr),
                      global_losses := global_losses st @ map np_mean (windows (map loss_of tr)),
                      global_EMs := global_EMs st @ map np_mean (windows (map em_of tr)),
                      global_f1s := global_f1s st @ map np_mean (windows (map f1_of tr)),
                      global_grad_norms :=
                        global_grad_norms st @ map np_mean (windows (map grad_norm_of tr))\<rparr>))"
    by (rule train_epoch_eq [OF assms])
next
  fix tr mw
  assume "run_steps rand_perm run_train batch_size (n_samples div batch_size)
            (model st, session st) = Inr (tr, mw)"
  then have len: "length tr = n_samples div batch_size"
    by (rule length_run_steps)
  then show "length tr = n_samples div batch_size" .
  from len show "length (windows (map loss_of tr)) = n_samples div batch_size div 20"
    by (simp add: length_windows)
  from len show "length (leftover (map loss_of tr)) = n_samples div batch_size mod 20"
    by (simp add: length_leftover)
  fix k assume "k < n_samples div batch_size div 20"
  with len show "length (windows (map loss_of tr) ! k) = 20"
    by (simp add: length_window)
next
  fix st' assume t: "train rand_perm run_train run_val epochs batch_size w0 self0 = Inr st'"
  note L = train_history_lengths [OF assms t]
  show "length (global_losses st') = epochs * (length (yS self0) div batch_size div 20)"
    by (rule L(1))
  show "length (global_EMs st') = epochs * (length (yS self0) div batch_size div 20)"
    by (rule L(2))
  show "length (global_f1s st') = epochs * (length (yS self0) div batch_size div 20)"
    by (rule L(3))
  show "length (global_grad_norms st') = epochs * (length (yS self0) div batch_size div 20)"
    by (rule L(4))
qed

text \<open>
  An epoch of 21 steps over 21 samples with batches of one, entered with stale values
  in the accumulators: one window is flushed and one step is left over.
\<close>

theorem train_epoch_steps_and_windows_witness:
  "0 < (1::nat)
   \<and> (\<exists>st'. train_epoch (\<lambda>g n. rev [0..<n]) run_train_const 1 21 stale_state = Inr st'
         \<and> session st' = 21
         \<and> global_losses st' = [1 / 2] \<and> global_EMs st' = [1] \<and> global_f1s st' = [1]
         \<and> global_grad_norms st' = [2]
         \<and> losses st' = [1 / 2] \<and> EMs st' = [1] \<and> f1s st' = [1] \<and> grad_norms st' = [2])"
proof -
  have pos: "0 < (1::nat)" by simp
  have m: "model stale_state = train_model" "session stale_state = 0"
    "global_losses stale_state = []" "global_EMs stale_state = []"
    "global_f1s stale_state = []" "global_grad_norms stale_state = []"
    by (simp_all add: stale_state_def)
  have "map_sum id (\<lambda>r. (fst r, snd (snd r)))
     (run_steps (\<lambda>g n. rev [0..<n]) run_train_const 1 21 (train_model, 0)) =
     Inr (replicate 21 (1 / 2, 1, 1, 2), 21)"
    by (rule run_steps_21_const)
  then obtain mw where
    rs: "run_steps (\<lambda>g n. rev [0..<n]) run_train_const 1 (21 div 1) (train_model, 0) =
           Inr (replicate 21 (1 / 2, 1, 1, 2), mw)"
    and w: "snd mw = 21"
    by (cases "run_steps (\<lambda>g n. rev [0..<n]) run_train_const 1 21 (train_model, 0)") auto
  have v: "map np_mean (windows (map loss_of (replicate 21 (1 / 2, 1, 1, 2)))) = [1 / 2]"
    "map np_mean (windows (map em_of (replicate 21 (1 / 2, 1, 1, 2)))) = [1]"
    "map np_mean (windows (map f1_of (replicate 21 (1 / 2, 1, 1, 2)))) = [1]"
    "map np_mean (windows (map grad_norm_of (replicate 21 (1 / 2, 1, 1, 2)))) = [2]"
    "leftover (map loss_of (replicate 21 (1 / 2, 1, 1, 2))) = [1 / 2]"
    "leftover (map em_of (replicate 21 (1 / 2, 1, 1, 2))) = [1]"
    "leftover (map f1_of (replicate 21 (1 / 2, 1, 1, 2))) = [1]"
    "leftover (map grad_norm_of (replicate 21 (1 / 2, 1, 1, 2))) = [2]"
    by code_simp+
  from train_epoch_steps_and_windows [OF pos, of "\<lambda>g n. rev [0..<n]" run_train_const 21 stale_state,
      THEN conjunct1]
  have "train_epoch (\<lambda>g n. rev [0..<n]) run_train_const 1 21 stale_state =
     Inr (stale_state\<lparr>model := fst mw, session := snd mw,
                      losses := [1 / 2], EMs := [1], f1s := [1], grad_norms := [2],
                      global_losses := [1 / 2], global_EMs := [1], global_f1s := [1],
                      global_grad_norms := [2]\<rparr>)"
    by (simp only: rs v m sum.case prod.case append_Nil)
  with w pos show ?thesis by simp
qed

end
